theory Spec2Isabelle
  imports Complex_Main "HOL-Library.Sublist"
begin

section \<open>JavaScript strings\<close>

text \<open>
  A JavaScript string is a sequence of code units. The keys, reasons and clock strings of
  the sender are modelled as \<open>string\<close>, each \<open>char\<close> standing for the code unit
  of the same number (the first 256 code points, which hold every character of a Telegram
  username, of the failure patterns and of a clock string).
\<close>

definition isWhiteSpace :: "char \<Rightarrow> bool" where
  \<comment> \<open>the characters \<open>String.prototype.trim\<close> removes, among the first 256 code points\<close>
  "isWhiteSpace c = (of_char c \<in> {9, 10, 11, 12, 13, 32, 160 :: nat})"

definition trim :: "string \<Rightarrow> string" where
  "trim s = rev (dropWhile isWhiteSpace (rev (dropWhile isWhiteSpace s)))"

definition toLowerChar :: "char \<Rightarrow> char" where
  \<comment> \<open>A-Z, and the capital letters of the Latin-1 block (all of 192..222 but the sign 215)\<close>
  "toLowerChar c =
     (let n = (of_char c :: nat)
      in if (65 \<le> n \<and> n \<le> 90) \<or> (192 \<le> n \<and> n \<le> 222 \<and> n \<noteq> 215)
         then char_of (n + 32) else c)"

definition toLowerCase :: "string \<Rightarrow> string" where
  "toLowerCase s = map toLowerChar s"

definition startsWith :: "string \<Rightarrow> string \<Rightarrow> bool" where
  "startsWith s p = (take (length p) s = p)"

fun includes_str :: "string \<Rightarrow> string \<Rightarrow> bool" where
  \<comment> \<open>\<open>s.includes(p)\<close>: \<open>p\<close> occurs in \<open>s\<close> as a contiguous run\<close>
  "includes_str [] p = (p = [])"
| "includes_str (c # cs) p = (startsWith (c # cs) p \<or> includes_str cs p)"

fun split :: "char \<Rightarrow> string \<Rightarrow> string list" where
  \<comment> \<open>\<open>s.split(sep)\<close> for a separator of one character: never the empty list\<close>
  "split sep [] = [[]]"
| "split sep (c # cs) =
     (if c = sep then [] # split sep cs
      else (case split sep cs of [] \<Rightarrow> [[c]] | x # xs \<Rightarrow> (c # x) # xs))"

fun digitValue :: "char \<Rightarrow> nat option" where
  "digitValue c =
     (let n = (of_char c :: nat)
      in if 48 \<le> n \<and> n \<le> 57 then Some (n - 48)
         else if 97 \<le> n \<and> n \<le> 102 then Some (n - 87)
         else if 65 \<le> n \<and> n \<le> 70 then Some (n - 55)
         else None)"

fun parseDigits :: "nat \<Rightarrow> string \<Rightarrow> nat option \<Rightarrow> nat option" where
  \<comment> \<open>the longest run of digits of the radix at the front; \<open>None\<close> when there is none\<close>
  "parseDigits radix [] acc = acc"
| "parseDigits radix (c # cs) acc =
     (case digitValue c of
        None \<Rightarrow> acc
      | Some d \<Rightarrow>
          if d < radix
          then parseDigits radix cs (Some ((case acc of None \<Rightarrow> 0 | Some a \<Rightarrow> a) * radix + d))
          else acc)"

definition parseInt :: "string option \<Rightarrow> int option" where
  \<comment> \<open>\<open>parseInt(x)\<close> with no radix; \<open>None\<close> on the left is \<open>undefined\<close>, \<open>None\<close> on
      the right is \<open>NaN\<close>\<close>
  "parseInt x =
     (case x of
        None \<Rightarrow> None
      | Some s \<Rightarrow>
          (let t = dropWhile isWhiteSpace s;
               neg = startsWith t ''-'';
               u = (if startsWith t ''-'' \<or> startsWith t ''+'' then drop 1 t else t);
               r = (if startsWith u ''0x'' \<or> startsWith u ''0X''
                    then parseDigits 16 (drop 2 u) None
                    else parseDigits 10 u None)
           in map_option (\<lambda>n. if neg then - int n else int n) r))"

definition nth_opt :: "'a list \<Rightarrow> nat \<Rightarrow> 'a option" where
  \<comment> \<open>\<open>xs[i]\<close>: \<open>undefined\<close> past the end\<close>
  "nth_opt xs i = (if i < length xs then Some (xs ! i) else None)"

section \<open>Work window (sender-time.js)\<close>

record window =
  window_start :: string
  window_end :: string

definition clockOffset :: "string \<Rightarrow> int option" where
  \<comment> \<open>\<open>today.hour(parseInt(t.split(':')[0])).minute(parseInt(t.split(':')[1]))\<close> as the
      milliseconds from the start of today; \<open>None\<close> is dayjs's invalid date\<close>
  "clockOffset t =
     (case (parseInt (nth_opt (split CHR '':'' t) 0), parseInt (nth_opt (split CHR '':'' t) 1)) of
        (Some h, Some m) \<Rightarrow> Some (h * 3600000 + m * 60000)
      | _ \<Rightarrow> None)"

definition isAfter :: "int option \<Rightarrow> int option \<Rightarrow> bool" where
  \<comment> \<open>dayjs compares the millisecond values; a comparison with an invalid date is false\<close>
  "isAfter a b = (case (a, b) of (Some x, Some y) \<Rightarrow> x > y | _ \<Rightarrow> False)"

definition isBefore :: "int option \<Rightarrow> int option \<Rightarrow> bool" where
  "isBefore a b = (case (a, b) of (Some x, Some y) \<Rightarrow> x < y | _ \<Rightarrow> False)"

definition isInWorkWindow :: "window \<Rightarrow> int \<Rightarrow> bool" where
  \<comment> \<open>\<open>now\<close> is the wall-clock time in the sender's time zone, in milliseconds from the
      start of today\<close>
  "isInWorkWindow w now =
     (let windowStart = clockOffset (window_start w);
          windowEnd = clockOffset (window_end w)
      in if isAfter windowStart windowEnd
         then isAfter (Some now) windowStart \<or> isBefore (Some now) windowEnd
         else isAfter (Some now) windowStart \<and> isBefore (Some now) windowEnd)"

definition clock :: "nat \<Rightarrow> nat \<Rightarrow> nat \<Rightarrow> nat \<Rightarrow> int" where
  \<comment> \<open>the wall-clock time h:m:s.ms as milliseconds from the start of the day\<close>
  "clock h m s ms = int (((h * 60 + m) * 60 + s) * 1000 + ms)"

section \<open>Contact keys (sent-history.js, util.js)\<close>

definition normalizeContactKey :: "string \<Rightarrow> string" where
  \<comment> \<open>SentHistory.normalizeContactKey; the empty string is the only falsy string\<close>
  "normalizeContactKey contactKey =
     (if contactKey = [] then []
      else (let normalized = trim (toLowerCase contactKey)
            in if startsWith normalized ''@'' then drop 1 normalized else normalized))"

record dedupeConfig =
  stripAt :: bool
  lowercase :: bool

datatype contactType = Username | Link

definition normalizeContact :: "string \<Rightarrow> dedupeConfig \<Rightarrow> string \<times> contactType" where
  \<comment> \<open>the pair is the object \<open>{ contactKey, contactType }\<close>\<close>
  "normalizeContact contact config =
     (let n0 = trim contact;
          n1 = (if stripAt config \<and> startsWith n0 ''@'' then drop 1 n0 else n0);
          normalized = (if lowercase config then toLowerCase n1 else n1);
          ctype = (if includes_str normalized ''/'' then Link else Username);
          ckey = (if ctype = Link
                  then (let p = last (split CHR ''/'' normalized)
                        in if p = [] then normalized else p)
                  else normalized)
      in (ckey, ctype))"

definition contactKeyOf :: "string \<Rightarrow> dedupeConfig \<Rightarrow> string" where
  "contactKeyOf contact config = fst (normalizeContact contact config)"

section \<open>Contact database (JsonDatabase)\<close>

datatype status = Pending | Sent | Skipped | Failed

record contact =
  contact_id :: int
  contact_key :: string
  contact_type :: contactType
  tg_user_id :: "int option"
  source_peer_id :: int
  source_message_id :: int
  sent_text :: string
  sent_at :: "int option"
  status :: status
  reason :: "string option"
  lead_description :: "string option"

text \<open>
  \<open>sent_at\<close> holds the instant of the ISO string as milliseconds, \<open>None\<close> for
  \<open>null\<close>. \<open>contact_id\<close> is the field \<open>id\<close>.
\<close>

record stats =
  total :: nat
  sent :: nat
  skipped :: nat
  failed :: nat

record db =
  contacts :: "contact list"
  stats :: stats
  writable :: bool

text \<open>
  \<open>writable\<close> says whether \<open>writeFileSync\<close> succeeds: \<open>saveData\<close> rethrows its
  failure, after the change in memory has been made.
\<close>

datatype error = IOError

definition saveData :: "db \<Rightarrow> error + unit" where
  "saveData d = (if writable d then Inr () else Inl IOError)"

definition orNull :: "string option \<Rightarrow> string option" where
  \<comment> \<open>\<open>x || null\<close> on an optional string: the empty string is falsy\<close>
  "orNull x = (if x = Some [] then None else x)"

definition findContactByKey :: "db \<Rightarrow> string \<Rightarrow> contact option" where
  "findContactByKey d contactKey = find (\<lambda>c. contact_key c = contactKey) (contacts d)"

definition saveContact :: "db \<Rightarrow> contact \<Rightarrow> int \<Rightarrow> db \<times> (error + contact)" where
  \<comment> \<open>\<open>now\<close> is \<open>Date.now()\<close>; the \<open>contact_id\<close> of the argument is not read\<close>
  "saveContact d c now =
     (let newContact = c\<lparr>contact_id := now,
                          tg_user_id := (if tg_user_id c = Some 0 then None else tg_user_id c),
                          sent_at := (case sent_at c of None \<Rightarrow> Some now | Some t \<Rightarrow> Some t),
                          reason := orNull (reason c),
                          lead_description := orNull (lead_description c)\<rparr>;
          d' = d\<lparr>contacts := contacts d @ [newContact],
                 stats := (stats d)\<lparr>total := total (stats d) + 1\<rparr>\<rparr>
      in (d', case saveData d' of Inl e \<Rightarrow> Inl e | Inr _ \<Rightarrow> Inr newContact))"

fun updateFirst :: "('a \<Rightarrow> bool) \<Rightarrow> ('a \<Rightarrow> 'a) \<Rightarrow> 'a list \<Rightarrow> 'a list" where
  \<comment> \<open>the in-place change of the object \<open>find\<close> returns\<close>
  "updateFirst P f [] = []"
| "updateFirst P f (x # xs) = (if P x then f x # xs else x # updateFirst P f xs)"

definition bumpStats :: "status \<Rightarrow> stats \<Rightarrow> stats" where
  "bumpStats st s =
     (if st = Sent then s\<lparr>sent := sent s + 1\<rparr>
      else if st = Skipped then s\<lparr>skipped := skipped s + 1\<rparr>
      else if st = Failed then s\<lparr>failed := failed s + 1\<rparr>
      else s)"

definition setStatus :: "status \<Rightarrow> string option \<Rightarrow> int \<Rightarrow> contact \<Rightarrow> contact" where
  "setStatus st r now c =
     (let c1 = c\<lparr>status := st, reason := orNull r\<rparr>
      in if st = Sent then c1\<lparr>sent_at := Some now\<rparr> else c1)"

definition updateContactStatus ::
    "db \<Rightarrow> string \<Rightarrow> status \<Rightarrow> string option \<Rightarrow> int \<Rightarrow> db \<times> (error + contact option)" where
  "updateContactStatus d contactKey st r now =
     (case find (\<lambda>c. contact_key c = contactKey) (contacts d) of
        None \<Rightarrow> (d, Inr None)
      | Some c \<Rightarrow>
          (let d' = d\<lparr>contacts := updateFirst (\<lambda>c. contact_key c = contactKey)
                                      (setStatus st r now) (contacts d),
                      stats := bumpStats st (stats d)\<rparr>
           in (d', case saveData d' of Inl e \<Rightarrow> Inl e
                                     | Inr _ \<Rightarrow> Inr (Some (setStatus st r now c)))))"

definition sentAtTime :: "contact \<Rightarrow> int" where
  \<comment> \<open>\<open>new Date(c.sent_at)\<close> as a number: \<open>new Date(null)\<close> is the epoch\<close>
  "sentAtTime c = (case sent_at c of None \<Rightarrow> 0 | Some t \<Rightarrow> t)"

definition getContactsForSending :: "db \<Rightarrow> nat \<Rightarrow> nat \<Rightarrow> contact list" where
  "getContactsForSending d limit offset =
     take limit (drop offset (sort_key sentAtTime (filter (\<lambda>c. status c = Pending) (contacts d))))"

definition PERMANENT_FAILURE_PATTERNS :: "string list" where
  "PERMANENT_FAILURE_PATTERNS =
     [''Cannot find any entity corresponding to'',
      ''USER_DEACTIVATED'',
      ''INPUT_USER_DEACTIVATED'',
      ''CHAT_WRITE_FORBIDDEN'',
      ''403'']"

definition isPermanentFailure :: "contact \<Rightarrow> bool" where
  "isPermanentFailure c =
     (case reason c of
        None \<Rightarrow> False
      | Some r \<Rightarrow> r \<noteq> [] \<and> list_ex (\<lambda>p. includes_str r p) PERMANENT_FAILURE_PATTERNS)"

definition requeued :: "contact \<Rightarrow> contact" where
  "requeued c = c\<lparr>status := Pending, reason := None\<rparr>"

function requeueLoop ::
    "int \<Rightarrow> nat \<Rightarrow> contact list \<Rightarrow> nat \<Rightarrow> nat \<Rightarrow> contact list \<times> nat \<times> nat" where
  "requeueLoop limit i cs updated removed =
     (if i < length cs \<and> int updated < limit
      then (let c = cs ! i
            in if status c = Failed
               then (if isPermanentFailure c
                     then requeueLoop limit (i + 1) (take i cs @ drop (i + 1) cs) updated (removed + 1)
                     else requeueLoop limit (i + 1) (cs[i := requeued c]) (updated + 1) removed)
               else requeueLoop limit (i + 1) cs updated removed)
      else (cs, updated, removed))"
  by pat_completeness auto
termination
  by (relation "measure (\<lambda>(limit, i, cs, updated, removed). length cs - i)") auto

text \<open>
  \<open>requeueLoop\<close> is the \<open>for (const contact of this.data.contacts)\<close> of
  \<open>requeueFailed\<close>: the array iterator reads index \<open>i\<close> of the array as it is now and
  stops when \<open>i\<close> reaches its current length. Each contact is an object of its own, so
  \<open>indexOf(contact)\<close> is \<open>i\<close> and \<open>splice(index, 1)\<close> removes position \<open>i\<close>; the
  iterator then goes on at \<open>i + 1\<close> of the shortened array.
\<close>

definition requeueFailed :: "db \<Rightarrow> int \<Rightarrow> db \<times> (error + nat)" where
  "requeueFailed d limit =
     (case requeueLoop limit 0 (contacts d) 0 0 of
        (cs, updated, removed) \<Rightarrow>
          (let d' = d\<lparr>contacts := cs\<rparr>
           in if updated > 0 \<or> removed > 0
              then (d', case saveData d' of Inl e \<Rightarrow> Inl e | Inr _ \<Rightarrow> Inr updated)
              else (d', Inr updated)))"

section \<open>Deduplication service (ContactDeduper)\<close>

definition registerContact ::
    "dedupeConfig \<Rightarrow> db \<Rightarrow> string \<Rightarrow> contactType \<Rightarrow> int \<Rightarrow> int \<Rightarrow> string \<Rightarrow> int option
       \<Rightarrow> string option \<Rightarrow> int \<Rightarrow> db \<times> (error + contact)" where
  \<comment> \<open>the argument \<open>contactType\<close> is not read: the record takes the normalized type\<close>
  "registerContact cfg d contactKey contactType sourcePeerId sourceMessageId sentText tgUserId
       leadDescription now =
     (let normalized = normalizeContact contactKey cfg
      in case findContactByKey d (fst normalized) of
           Some existingContact \<Rightarrow> (d, Inr existingContact)
         | None \<Rightarrow>
             saveContact d
               \<lparr>contact_id = 0,
                contact_key = fst normalized,
                contact_type = snd normalized,
                tg_user_id = tgUserId,
                source_peer_id = sourcePeerId,
                source_message_id = sourceMessageId,
                sent_text = sentText,
                sent_at = None,
                status = Sent,
                reason = None,
                lead_description = leadDescription\<rparr> now)"

definition dedupeUpdateContactStatus ::
    "dedupeConfig \<Rightarrow> db \<Rightarrow> string \<Rightarrow> status \<Rightarrow> string option \<Rightarrow> int \<Rightarrow> db \<times> (error + unit)" where
  \<comment> \<open>ContactDeduper.updateContactStatus\<close>
  "dedupeUpdateContactStatus cfg d contactKey st r now =
     (case updateContactStatus d (fst (normalizeContact contactKey cfg)) st r now of
        (d', Inl e) \<Rightarrow> (d', Inl e)
      | (d', Inr _) \<Rightarrow> (d', Inr ()))"

section \<open>Rate limiter (rate.js)\<close>

record rateLimitConfig =
  cfg_maxMessages :: "int option"
  cfg_messageIntervalMs :: "(int \<times> int) option"
  cfg_burstPauseMs :: "int option"

record rateLimiter =
  maxMessages :: int
  messageIntervalMs :: real
  burstPauseMs :: int
  sentMessages :: "int list"
  lastSentTime :: int
  burstStartTime :: int
  isFirstRun :: bool

definition defaultMaxMessages :: int where "defaultMaxMessages = 3"
definition defaultIntervalMs :: "int \<times> int" where "defaultIntervalMs = (60000, 120000)"
definition defaultBurstPauseMs :: int where "defaultBurstPauseMs = 900000"
definition autoResetThresholdMs :: int where "autoResetThresholdMs = 300000"
definition maxWaitPerCycleMs :: real where "maxWaitPerCycleMs = 5000"
definition firstMessageWaitMs :: real where "firstMessageWaitMs = 100"
definition minWaitMs :: real where "minWaitMs = 1000"

definition orDefault :: "int option \<Rightarrow> int \<Rightarrow> int" where
  \<comment> \<open>\<open>x || d\<close> on an optional number: \<open>undefined\<close> and 0 are falsy\<close>
  "orDefault x d = (case x of None \<Rightarrow> d | Some v \<Rightarrow> if v = 0 then d else v)"

definition createRateLimiter :: "rateLimitConfig \<Rightarrow> real \<Rightarrow> rateLimiter" where
  \<comment> \<open>\<open>random\<close> is the value of \<open>Math.random()\<close> drawn by the constructor\<close>
  "createRateLimiter config random =
     (case (case cfg_messageIntervalMs config of None \<Rightarrow> defaultIntervalMs | Some r \<Rightarrow> r) of
        (minInterval, maxInterval) \<Rightarrow>
          \<lparr>maxMessages = orDefault (cfg_maxMessages config) defaultMaxMessages,
           messageIntervalMs = of_int minInterval + random * of_int (maxInterval - minInterval),
           burstPauseMs = orDefault (cfg_burstPauseMs config) defaultBurstPauseMs,
           sentMessages = [],
           lastSentTime = 0,
           burstStartTime = 0,
           isFirstRun = True\<rparr>)"

text \<open>
  Each operation below takes \<open>now\<close>, the value of \<open>getTimestamp()\<close>: the reads of the
  clock inside one synchronous call give the same millisecond.
\<close>

definition cleanupOldSends :: "rateLimiter \<Rightarrow> int \<Rightarrow> rateLimiter" where
  "cleanupOldSends rl now =
     (let cutoffTime = now - burstPauseMs rl;
          rl1 = rl\<lparr>sentMessages := filter (\<lambda>timestamp. timestamp > cutoffTime) (sentMessages rl)\<rparr>;
          rl2 = (if lastSentTime rl1 > 0 \<and> now - lastSentTime rl1 > burstPauseMs rl1
                 then rl1\<lparr>sentMessages := [], burstStartTime := 0, lastSentTime := 0,
                          isFirstRun := True\<rparr>
                 else rl1)
      in if sentMessages rl2 = [] \<and> now - lastSentTime rl2 > autoResetThresholdMs
         then rl2\<lparr>isFirstRun := True\<rparr> else rl2)"

definition canSendNow :: "rateLimiter \<Rightarrow> int \<Rightarrow> bool \<times> rateLimiter" where
  "canSendNow rl now =
     (let r = cleanupOldSends rl now
      in if isFirstRun r \<and> int (length (sentMessages r)) < maxMessages r then (True, r)
         else if sentMessages r = [] then (True, r)
         else if of_int (now - lastSentTime r) < messageIntervalMs r then (False, r)
         else if int (length (sentMessages r)) \<ge> maxMessages r
              then (if now - burstStartTime r < burstPauseMs r then (False, r)
                    else (True, r\<lparr>sentMessages := [], burstStartTime := 0, lastSentTime := 0\<rparr>))
              else (True, r))"

definition tryConsume :: "rateLimiter \<Rightarrow> int \<Rightarrow> bool \<times> rateLimiter" where
  "tryConsume rl now =
     (case canSendNow rl now of
        (False, r) \<Rightarrow> (False, r)
      | (True, r) \<Rightarrow>
          (let r1 = r\<lparr>sentMessages := sentMessages r @ [now], lastSentTime := now\<rparr>;
               r2 = (if length (sentMessages r1) = 1 then r1\<lparr>burstStartTime := now\<rparr> else r1);
               r3 = (if isFirstRun r2 \<and> int (length (sentMessages r2)) \<ge> maxMessages r2
                     then r2\<lparr>isFirstRun := False\<rparr> else r2)
           in (True, r3)))"

definition getAvailableTokens :: "rateLimiter \<Rightarrow> int \<Rightarrow> nat \<times> rateLimiter" where
  "getAvailableTokens rl now =
     (let r = cleanupOldSends rl now
      in (if int (length (sentMessages r)) < maxMessages r then 1 else 0, r))"

fun consumeAll :: "rateLimiter \<Rightarrow> int list \<Rightarrow> rateLimiter" where
  \<comment> \<open>a sequence of \<open>tryConsume()\<close> calls, one at each of the given instants\<close>
  "consumeAll rl [] = rl"
| "consumeAll rl (t # ts) = consumeAll (snd (tryConsume rl t)) ts"

fun steadyConsumed :: "rateLimiter \<Rightarrow> int list \<Rightarrow> int list" where
  \<comment> \<open>the instants of the calls that return true while the limiter is past its first run\<close>
  "steadyConsumed rl [] = []"
| "steadyConsumed rl (t # ts) =
     (if fst (tryConsume rl t) \<and> \<not> isFirstRun rl \<and> \<not> isFirstRun (snd (tryConsume rl t))
      then t # steadyConsumed (snd (tryConsume rl t)) ts
      else steadyConsumed (snd (tryConsume rl t)) ts)"

definition countInWindow :: "int \<Rightarrow> int \<Rightarrow> int list \<Rightarrow> nat" where
  \<comment> \<open>how many of the instants lie in the window \<open>(hi - len, hi]\<close>\<close>
  "countInWindow len hi ts = length (filter (\<lambda>t. hi - len < t \<and> t \<le> hi) ts)"

definition waitTimeFor :: "rateLimiter \<Rightarrow> int \<Rightarrow> real" where
  \<comment> \<open>\<open>waitTime\<close> in the body of \<open>waitForToken\<close>\<close>
  "waitTimeFor rl now =
     (if sentMessages rl = [] then firstMessageWaitMs
      else if int (length (sentMessages rl)) < maxMessages rl
           then max minWaitMs (messageIntervalMs rl - of_int (now - lastSentTime rl))
           else max minWaitMs (of_int (burstPauseMs rl - (now - burstStartTime rl))))"

definition delayMs :: "real \<Rightarrow> nat \<Rightarrow> int" where
  \<comment> \<open>\<open>await delay(ms)\<close>: the timer takes the whole milliseconds of \<open>ms\<close> and fires
      \<open>lag\<close> milliseconds late\<close>
  "delayMs ms lag = \<lfloor>ms\<rfloor> + int lag"

function waitLoop ::
    "int \<Rightarrow> int \<Rightarrow> nat list \<Rightarrow> int \<Rightarrow> rateLimiter \<Rightarrow> bool \<times> rateLimiter \<times> int" where
  "waitLoop timeoutMs startTime lags clk rl =
     (if clk - startTime < timeoutMs
      then (if fst (tryConsume rl clk) then (True, snd (tryConsume rl clk), clk)
            else waitLoop timeoutMs startTime (tl lags)
                   (clk + delayMs (min (waitTimeFor (snd (tryConsume rl clk)) clk) maxWaitPerCycleMs)
                            (case lags of [] \<Rightarrow> 0 | l # _ \<Rightarrow> l))
                   (snd (tryConsume rl clk)))
      else (False, rl, clk))"
  by pat_completeness auto
termination
proof (relation "measure (\<lambda>(timeoutMs, startTime, lags, clk, rl).
                            nat (timeoutMs - (clk - startTime)))")
  show "wf (measure (\<lambda>(timeoutMs, startTime, lags, clk, rl).
                      nat (timeoutMs - (clk - startTime))))"
    by simp
next
  fix timeoutMs startTime :: int and lags :: "nat list" and clk :: int and rl :: rateLimiter
  assume running: "clk - startTime < timeoutMs"
  let ?r = "snd (tryConsume rl clk)"
  have "100 \<le> waitTimeFor ?r clk"
    by (auto simp: waitTimeFor_def firstMessageWaitMs_def minWaitMs_def)
  then have "100 \<le> min (waitTimeFor ?r clk) maxWaitPerCycleMs"
    by (simp add: maxWaitPerCycleMs_def)
  then have "100 \<le> \<lfloor>min (waitTimeFor ?r clk) maxWaitPerCycleMs\<rfloor>"
    by (simp add: le_floor_iff)
  moreover have "0 \<le> int (case lags of [] \<Rightarrow> 0 | l # _ \<Rightarrow> l)"
    by (rule of_nat_0_le_iff)
  ultimately have "0 < delayMs (min (waitTimeFor ?r clk) maxWaitPerCycleMs)
                   (case lags of [] \<Rightarrow> 0 | l # _ \<Rightarrow> l)"
    unfolding delayMs_def by linarith
  with running
  show "((timeoutMs, startTime, tl lags,
          clk + delayMs (min (waitTimeFor ?r clk) maxWaitPerCycleMs)
                  (case lags of [] \<Rightarrow> 0 | l # _ \<Rightarrow> l), ?r),
         (timeoutMs, startTime, lags, clk, rl))
        \<in> measure (\<lambda>(timeoutMs, startTime, lags, clk, rl).
                      nat (timeoutMs - (clk - startTime)))"
    by (simp add: nat_less_iff)
qed

definition waitForToken :: "rateLimiter \<Rightarrow> int \<Rightarrow> nat list \<Rightarrow> int \<Rightarrow> bool \<times> rateLimiter \<times> int" where
  \<comment> \<open>\<open>clk\<close> is the clock at the call, \<open>lags\<close> how late each timer fires; the
      result holds the limiter and the clock at the return\<close>
  "waitForToken rl timeoutMs lags clk = waitLoop timeoutMs clk lags clk rl"

section \<open>Sent history (sent-history.js)\<close>

record sentEntry =
  first_sent :: int
  last_sent :: int
  sent_count :: int
  source_message_ids :: "int list"
  marked_as_processed :: bool

text \<open>\<open>sent_count\<close> is the field \<open>count\<close>; \<open>sentContacts\<close> is the object keyed by
  normalized contact key.\<close>

type_synonym sentContacts = "string \<Rightarrow> sentEntry option"

definition isAlreadySent :: "sentContacts \<Rightarrow> string \<Rightarrow> bool" where
  "isAlreadySent h contactKey =
     (case h (normalizeContactKey contactKey) of
        None \<Rightarrow> False
      | Some e \<Rightarrow> sent_count e > 0 \<or> marked_as_processed e)"

definition recordSent :: "sentContacts \<Rightarrow> string \<Rightarrow> int \<Rightarrow> int \<Rightarrow> sentContacts" where
  "recordSent h contactKey sourceMessageId now =
     (let normalizedKey = normalizeContactKey contactKey
      in case h normalizedKey of
           Some e \<Rightarrow> h(normalizedKey \<mapsto> e\<lparr>last_sent := now, sent_count := sent_count e + 1,
                                            source_message_ids := source_message_ids e @ [sourceMessageId]\<rparr>)
         | None \<Rightarrow> h(normalizedKey \<mapsto> \<lparr>first_sent = now, last_sent = now, sent_count = 1,
                                         source_message_ids = [sourceMessageId],
                                         marked_as_processed = False\<rparr>))"

section \<open>Outreach sender (send.js)\<close>

record deliveryResult =
  dr_success :: bool
  dr_messageId :: "int option"
  dr_error :: "string option"
  dr_floodWaitSeconds :: "int option"

text \<open>
  The collaborators of the sender. A result \<open>Inl msg\<close> is a thrown error with that
  message. \<open>composeMessage\<close> stands for \<open>createLeadContext\<close>, \<open>detectCategory\<close> and the
  composer's call of the generation service, on the contact key and the lead description.
  \<open>getUserInfo\<close> says whether a profile was found.
\<close>

record collaborators =
  composeMessage :: "string \<Rightarrow> string \<Rightarrow> string + string"
  getUserInfo :: "string \<Rightarrow> string + bool"
  sendMessage :: "string \<Rightarrow> string \<Rightarrow> string + deliveryResult"

datatype report = SkipReport string string | OutreachReport string bool "string option"

record sendOutcome =
  so_contactKey :: string
  so_success :: bool
  so_messageId :: "int option"
  so_error :: "string option"
  so_floodWaitSeconds :: "int option"
  so_attempts :: "nat option"

record sender =
  sender_db :: db
  sentHistory :: sentContacts
  delivered :: "(string \<times> string) list"
  reports :: "report list"
  progress :: "(string \<times> bool) list"

text \<open>
  A field the code leaves out of a result object is \<open>None\<close> in \<open>sendOutcome\<close>.
  \<open>delivered\<close> lists the calls of the delivery client's \<open>sendMessage\<close>, \<open>reports\<close>
  the calls of the report client (a report that throws is caught and changes nothing
  else), \<open>progress\<close> the calls of the checkpoint manager.
\<close>

definition DUPLICATE_CONTACT :: string where
  "DUPLICATE_CONTACT = ''DUPLICATE_CONTACT''"

definition nullDescriptionError :: string where
  \<comment> \<open>the message of the TypeError of \<open>description.toLowerCase()\<close> on \<open>null\<close>\<close>
  "nullDescriptionError = ''Cannot read properties of null''"

definition caught :: "string \<Rightarrow> string \<Rightarrow> sendOutcome" where
  \<comment> \<open>the result built by the \<open>catch\<close> of \<open>sendToContact\<close>\<close>
  "caught contactKey msg =
     \<lparr>so_contactKey = contactKey, so_success = False, so_messageId = None,
      so_error = Some msg, so_floodWaitSeconds = None, so_attempts = Some 1\<rparr>"

definition sendToContact ::
    "dedupeConfig \<Rightarrow> collaborators \<Rightarrow> sender \<Rightarrow> contact \<Rightarrow> int \<Rightarrow> sender \<times> sendOutcome" where
  "sendToContact cfg env s c now =
     (let contactKey = contact_key c
      in if isAlreadySent (sentHistory s) contactKey
         then (s\<lparr>sender_db := fst (dedupeUpdateContactStatus cfg (sender_db s) contactKey Skipped
                                       (Some DUPLICATE_CONTACT) now)\<rparr>,
               \<lparr>so_contactKey = contactKey, so_success = False, so_messageId = None,
                so_error = Some DUPLICATE_CONTACT, so_floodWaitSeconds = None,
                so_attempts = None\<rparr>)
         else (case lead_description c of
                 None \<Rightarrow> (s, caught contactKey nullDescriptionError)
               | Some description \<Rightarrow>
                  (case composeMessage env contactKey description of
                     Inl msg \<Rightarrow> (s, caught contactKey msg)
                   | Inr text \<Rightarrow>
                      (case getUserInfo env contactKey of
                         Inl msg \<Rightarrow> (s, caught contactKey msg)
                       | Inr False \<Rightarrow>
                           (s, \<lparr>so_contactKey = contactKey, so_success = False, so_messageId = None,
                                so_error = Some (''Cannot find any entity corresponding to ''
                                                 @ [CHR 0x22] @ contactKey @ [CHR 0x22]),
                                so_floodWaitSeconds = None, so_attempts = Some 0\<rparr>)
                       | Inr True \<Rightarrow>
                           (let s1 = s\<lparr>delivered := delivered s @ [(contactKey, text)]\<rparr>
                            in case sendMessage env contactKey text of
                                 Inl msg \<Rightarrow> (s1, caught contactKey msg)
                               | Inr r \<Rightarrow>
                                   (let s2 = (if dr_success r
                                              then s1\<lparr>sentHistory := recordSent (sentHistory s1) contactKey
                                                                        (source_message_id c) now\<rparr>
                                              else s1);
                                        s3 = s2\<lparr>progress := progress s2 @ [(contactKey, dr_success r)]\<rparr>
                                    in (s3, \<lparr>so_contactKey = contactKey, so_success = dr_success r,
                                             so_messageId = dr_messageId r, so_error = dr_error r,
                                             so_floodWaitSeconds = dr_floodWaitSeconds r,
                                             so_attempts = Some 1\<rparr>)))))))"

definition contactsBatchSize :: nat where "contactsBatchSize = 10"
definition requeueBatchSize :: int where "requeueBatchSize = 50"

definition commitStatus ::
    "dedupeConfig \<Rightarrow> sender \<Rightarrow> string \<Rightarrow> status \<Rightarrow> string option \<Rightarrow> int \<Rightarrow> sender \<times> bool" where
  \<comment> \<open>the last \<open>updateContactStatus\<close> of a cycle and its \<open>return true\<close>; a failed write is
      caught by \<open>processNextTask\<close>, which returns false\<close>
  "commitStatus cfg s contactKey st r now =
     (case dedupeUpdateContactStatus cfg (sender_db s) contactKey st r now of
        (d, Inl e) \<Rightarrow> (s\<lparr>sender_db := d\<rparr>, False)
      | (d, Inr _) \<Rightarrow> (s\<lparr>sender_db := d\<rparr>, True))"

definition processContact ::
    "dedupeConfig \<Rightarrow> collaborators \<Rightarrow> sender \<Rightarrow> contact \<Rightarrow> int \<Rightarrow> sender \<times> bool" where
  \<comment> \<open>\<open>processNextTask\<close> from \<open>const contact = contacts[0]\<close> on\<close>
  "processContact cfg env s c now =
     (case sendToContact cfg env s c now of
        (s1, result) \<Rightarrow>
          if so_error result = Some DUPLICATE_CONTACT
          then commitStatus cfg
                 (s1\<lparr>reports := reports s1 @ [SkipReport (contact_key c) DUPLICATE_CONTACT]\<rparr>)
                 (contact_key c) Skipped (Some DUPLICATE_CONTACT) now
          else commitStatus cfg
                 (s1\<lparr>reports := reports s1 @
                        [OutreachReport (contact_key c) (so_success result) (so_error result)]\<rparr>)
                 (contact_key c) (if so_success result then Sent else Failed) (so_error result) now)"

definition processNextTask ::
    "dedupeConfig \<Rightarrow> collaborators \<Rightarrow> sender \<Rightarrow> int \<Rightarrow> sender \<times> bool" where
  "processNextTask cfg env s now =
     (case getContactsForSending (sender_db s) contactsBatchSize 0 of
        c # _ \<Rightarrow> processContact cfg env s c now
      | [] \<Rightarrow>
          (case requeueFailed (sender_db s) requeueBatchSize of
             (d, Inl e) \<Rightarrow> (s\<lparr>sender_db := d\<rparr>, False)
           | (d, Inr n) \<Rightarrow>
               (case (if n > 0 then getContactsForSending d contactsBatchSize 0 else []) of
                  [] \<Rightarrow> (s\<lparr>sender_db := d\<rparr>, False)
                | c # _ \<Rightarrow> processContact cfg env (s\<lparr>sender_db := d\<rparr>) c now)))"

section \<open>Ingestion scanner (json-scanner.js)\<close>

record feedMessage =
  msg_id :: int
  sourceMessageId :: "int option"
  fullContent :: string

text \<open>
  \<open>msg_id\<close> is the field \<open>id\<close> of a feed entry. The deny test and the extraction of
  contacts (regular expressions, and a fetch of the original message) are given by two
  functions of the entry.
\<close>

record scanRules =
  isDenied :: "feedMessage \<Rightarrow> bool"
  contactsOf :: "feedMessage \<Rightarrow> string list"

record scanner =
  lastProcessedId :: int
  progressFile :: "int option"
  progressWritable :: bool
  handlerSet :: bool
  databaseKeys :: "string list"
  databaseWritable :: bool
  sentKeys :: "string list"

text \<open>
  \<open>progressFile\<close> is the \<open>lastProcessedId\<close> stored in the progress file (\<open>None\<close>: no
  file) and \<open>progressWritable\<close> says whether \<open>writeFileSync\<close> on that file succeeds:
  \<open>saveLastProcessedId\<close> catches a failed write and leaves the file as it was.
  \<open>handlerSet\<close> says whether \<open>onContactFound\<close> is set. \<open>databaseKeys\<close> are the contact
  keys of database.json, \<open>databaseWritable\<close> says whether that file can be written, and
  \<open>sentKeys\<close> are the keys of sent_contacts.json. The scan is given as the list of its
  effects, in the order the code performs them, so that a crash is a prefix of that list.
\<close>

datatype scanEvent =
    DenySkip int
  | DuplicateSkip int string
  | ContactFound int string
  | Advance int
  | SaveProgress
  | Abort

definition stripLeadingAt :: "string \<Rightarrow> string" where
  \<comment> \<open>\<open>.replace(/^@/, '')\<close>\<close>
  "stripLeadingAt k = (if startsWith k ''@'' then drop 1 k else k)"

definition checkIfContactExists :: "scanner \<Rightarrow> string \<Rightarrow> bool" where
  "checkIfContactExists s contactKey =
     (let normalizedKey = stripLeadingAt (toLowerCase contactKey)
      in list_ex (\<lambda>k. stripLeadingAt (toLowerCase k) = normalizedKey) (databaseKeys s)
         \<or> normalizedKey \<in> set (sentKeys s))"

fun applyEvent :: "scanner \<Rightarrow> scanEvent \<Rightarrow> scanner" where
  \<comment> \<open>\<open>ContactFound\<close> is the handler wired at start-up, \<open>db.addContact(contact)\<close>, which
      catches the failure of its own write; \<open>SaveProgress\<close> is \<open>saveLastProcessedId()\<close>\<close>
  "applyEvent s (ContactFound i k) =
     (if databaseWritable s then s\<lparr>databaseKeys := databaseKeys s @ [k]\<rparr> else s)"
| "applyEvent s (Advance i) = s\<lparr>lastProcessedId := i\<rparr>"
| "applyEvent s SaveProgress =
     (if progressWritable s then s\<lparr>progressFile := Some (lastProcessedId s)\<rparr> else s)"
| "applyEvent s _ = s"

definition aborted :: "scanEvent list \<Rightarrow> bool" where
  "aborted evs = (evs \<noteq> [] \<and> last evs = Abort)"

fun contactEvents :: "scanner \<Rightarrow> feedMessage \<Rightarrow> string list \<Rightarrow> scanEvent list" where
  \<comment> \<open>the loop over \<open>allContacts\<close>; \<open>message.sourceMessageId.toString()\<close> throws on a
      missing id, which ends the scan in its \<open>catch\<close>\<close>
  "contactEvents s m [] = []"
| "contactEvents s m (k # ks) =
     (if \<not> handlerSet s then contactEvents s m ks
      else if checkIfContactExists s k then DuplicateSkip (msg_id m) k # contactEvents s m ks
      else (case sourceMessageId m of
              None \<Rightarrow> [Abort]
            | Some _ \<Rightarrow> ContactFound (msg_id m) k
                        # contactEvents (applyEvent s (ContactFound (msg_id m) k)) m ks))"

definition messageEvents :: "scanRules \<Rightarrow> scanner \<Rightarrow> feedMessage \<Rightarrow> scanEvent list" where
  "messageEvents rules s m =
     (if isDenied rules m then [DenySkip (msg_id m), Advance (msg_id m)]
      else (let evs = contactEvents s m (contactsOf rules m)
            in if aborted evs then evs else evs @ [Advance (msg_id m)]))"

fun loopEvents :: "scanRules \<Rightarrow> scanner \<Rightarrow> feedMessage list \<Rightarrow> scanEvent list" where
  \<comment> \<open>the loop over \<open>newMessages\<close>, then \<open>saveLastProcessedId()\<close>\<close>
  "loopEvents rules s [] = [SaveProgress]"
| "loopEvents rules s (m # ms) =
     (let evs = messageEvents rules s m
      in if aborted evs then evs else evs @ loopEvents rules (foldl applyEvent s evs) ms)"

definition newMessages :: "scanner \<Rightarrow> feedMessage list \<Rightarrow> feedMessage list" where
  "newMessages s feed = filter (\<lambda>msg. msg_id msg > lastProcessedId s) feed"

definition performScanEvents :: "scanRules \<Rightarrow> scanner \<Rightarrow> feedMessage list \<Rightarrow> scanEvent list" where
  "performScanEvents rules s feed =
     (if newMessages s feed = [] then [] else loopEvents rules s (newMessages s feed))"

definition performScan :: "scanRules \<Rightarrow> scanner \<Rightarrow> feedMessage list \<Rightarrow> scanner" where
  "performScan rules s feed = foldl applyEvent s (performScanEvents rules s feed)"

definition crashAfter :: "nat \<Rightarrow> scanRules \<Rightarrow> scanner \<Rightarrow> feedMessage list \<Rightarrow> scanner" where
  \<comment> \<open>the files and the memory when the process dies after \<open>n\<close> effects of a scan\<close>
  "crashAfter n rules s feed = foldl applyEvent s (take n (performScanEvents rules s feed))"

definition loadLastProcessedId :: "scanner \<Rightarrow> scanner" where
  \<comment> \<open>the constructor's read of the progress file at a restart\<close>
  "loadLastProcessedId s =
     (case progressFile s of
        None \<Rightarrow> applyEvent (s\<lparr>lastProcessedId := 0\<rparr>) SaveProgress
      | Some i \<Rightarrow> s\<lparr>lastProcessedId := i\<rparr>)"

section \<open>Notions used in the statements\<close>

definition cleanHead :: "string \<Rightarrow> bool" where
  \<comment> \<open>the string does not begin with \<open>@\<close> or with white space\<close>
  "cleanHead s = (case s of [] \<Rightarrow> True | c # _ \<Rightarrow> c \<noteq> CHR ''@'' \<and> \<not> isWhiteSpace c)"



definition keyCount :: "string \<Rightarrow> contact list \<Rightarrow> nat" where
  "keyCount k cs = length (filter (\<lambda>c. contact_key c = k) cs)"

definition nightWindow :: window where
  "nightWindow = \<lparr>window_start = ''22:00'', window_end = ''06:00''\<rparr>"

definition defaultDedupe :: dedupeConfig where
  \<comment> \<open>the \<open>dedupe\<close> entry of the sender's configuration\<close>
  "defaultDedupe = \<lparr>stripAt = True, lowercase = True\<rparr>"

definition twoEntryFeed :: "feedMessage list" where
  "twoEntryFeed =
     [\<lparr>msg_id = 1, sourceMessageId = Some 11, fullContent = ''write to @alice_dev''\<rparr>,
      \<lparr>msg_id = 2, sourceMessageId = Some 12, fullContent = ''@bob_dev or @carol_dev''\<rparr>]"

definition exampleRules :: scanRules where
  \<comment> \<open>nothing is denied; entry 1 names one contact, entry 2 names two\<close>
  "exampleRules =
     \<lparr>isDenied = (\<lambda>m. False),
      contactsOf = (\<lambda>m. if msg_id m = 1 then [''alice_dev''] else [''bob_dev'', ''carol_dev''])\<rparr>"

definition freshScanner :: scanner where
  "freshScanner =
     \<lparr>lastProcessedId = 0, progressFile = Some 0, progressWritable = True, handlerSet = True,
      databaseKeys = [], databaseWritable = True, sentKeys = []\<rparr>"

definition defaultLimiter :: rateLimiter where
  \<comment> \<open>the limiter of an empty configuration, with 0 drawn for the interval\<close>
  "defaultLimiter =
     createRateLimiter \<lparr>cfg_maxMessages = None, cfg_messageIntervalMs = None,
                        cfg_burstPauseMs = None\<rparr> 0"

definition T0 :: int where
  \<comment> \<open>an instant of \<open>Date.now()\<close>\<close>
  "T0 = 1700000000000"

definition burstTimes :: "int list" where
  "burstTimes = [T0, T0 + 1, T0 + 2, T0 + 900000, T0 + 1020000, T0 + 1140000, T0 + 1260000]"

definition newContact :: "string \<Rightarrow> status \<Rightarrow> string option \<Rightarrow> contact" where
  \<comment> \<open>a ledger record with the given key, status and reason\<close>
  "newContact k st r =
     \<lparr>contact_id = 1, contact_key = k, contact_type = Username, tg_user_id = None,
      source_peer_id = 0, source_message_id = 0, sent_text = [], sent_at = None,
      status = st, reason = r, lead_description = Some ''need a site''\<rparr>"

definition ledgerOf :: "contact list \<Rightarrow> db" where
  "ledgerOf cs =
     \<lparr>contacts = cs, stats = \<lparr>total = length cs, sent = 0, skipped = 0, failed = 0\<rparr>,
      writable = True\<rparr>"

definition threeDeactivated :: db where
  "threeDeactivated =
     ledgerOf [newContact ''anna_k'' Failed (Some ''USER_DEACTIVATED''),
               newContact ''boris_k'' Failed (Some ''USER_DEACTIVATED''),
               newContact ''clara_k'' Failed (Some ''USER_DEACTIVATED'')]"

definition mixedLedger :: db where
  "mixedLedger =
     ledgerOf [newContact ''anna_k'' Failed (Some ''USER_DEACTIVATED''),
               newContact ''boris_k'' Sent None,
               newContact ''clara_k'' Failed (Some ''Timeout'')]"



definition emptyLedger :: db where
  "emptyLedger = ledgerOf []"

definition normalSender :: sender where
  \<comment> \<open>a pending contact stored under its normalized key, already in the sent history\<close>
  "normalSender =
     \<lparr>sender_db = ledgerOf [newContact ''boris_k'' Sent None, newContact ''ivan_dev'' Pending None],
      sentHistory = Map.empty(''ivan_dev'' \<mapsto>
                       \<lparr>first_sent = 5, last_sent = 5, sent_count = 1,
                        source_message_ids = [0], marked_as_processed = False\<rparr>),
      delivered = [], reports = [], progress = []\<rparr>"

definition deliveringClient :: collaborators where
  \<comment> \<open>collaborators that compose a text, find the profile and deliver the message\<close>
  "deliveringClient =
     \<lparr>composeMessage = (\<lambda>contactKey description. Inr ''hello''),
      getUserInfo = (\<lambda>contactKey. Inr True),
      sendMessage = (\<lambda>contactKey text.
         Inr \<lparr>dr_success = True, dr_messageId = Some 1, dr_error = None,
              dr_floodWaitSeconds = None\<rparr>)\<rparr>"

section \<open>Work window\<close>

lemma clockOffset_22: "clockOffset ''22:00'' = Some 79200000"
  by (simp add: clockOffset_def parseInt_def nth_opt_def startsWith_def isWhiteSpace_def)

lemma clockOffset_06: "clockOffset ''06:00'' = Some 21600000"
  by (simp add: clockOffset_def parseInt_def nth_opt_def startsWith_def isWhiteSpace_def)

text \<open>
  C9. The window from 22:00 to 06:00 (start after end) is open overnight: an instant of
  the day is inside it exactly when it lies after 22:00 or before 06:00, both bounds
  excluded. So every instant of the minute 23:30 is inside the window and every instant
  of the minute 12:00 is outside.
\<close>

theorem work_window_wraps_midnight:
  "(isInWorkWindow nightWindow now \<longleftrightarrow> clock 22 0 0 0 < now \<or> now < clock 6 0 0 0)
   \<and> (s < 60 \<and> ms < 1000
      \<longrightarrow> isInWorkWindow nightWindow (clock 23 30 s ms)
          \<and> \<not> isInWorkWindow nightWindow (clock 12 0 s ms))"
  by (auto simp: isInWorkWindow_def nightWindow_def clockOffset_22 clockOffset_06 isAfter_def
      isBefore_def clock_def)

theorem work_window_wraps_midnight_witness:
  "(0::nat) < 60 \<and> (0::nat) < 1000
   \<and> isInWorkWindow nightWindow (clock 23 30 0 0)
   \<and> \<not> isInWorkWindow nightWindow (clock 12 0 0 0)
   \<and> isInWorkWindow nightWindow (clock 3 0 0 0)
   \<and> isInWorkWindow nightWindow (clock 5 59 59 999)
   \<and> \<not> isInWorkWindow nightWindow (clock 6 0 0 0)
   \<and> \<not> isInWorkWindow nightWindow (clock 22 0 0 0)
   \<and> isInWorkWindow nightWindow (clock 22 0 0 1)"
  using work_window_wraps_midnight[of "clock 3 0 0 0" 0 0]
    work_window_wraps_midnight[of "clock 5 59 59 999" 0 0]
    work_window_wraps_midnight[of "clock 6 0 0 0" 0 0]
    work_window_wraps_midnight[of "clock 22 0 0 0" 0 0]
    work_window_wraps_midnight[of "clock 22 0 0 1" 0 0]
  by (simp add: clock_def)

section \<open>Normalization of contact keys\<close>

lemma toLowerChar_idem: "toLowerChar (toLowerChar c) = toLowerChar c"
  by (auto simp: toLowerChar_def Let_def)

lemma toLowerCase_fixed: "set s \<subseteq> range toLowerChar \<Longrightarrow> toLowerCase s = s"
  by (induction s) (auto simp: toLowerCase_def toLowerChar_idem)

lemma toLowerChar_ws: "isWhiteSpace (toLowerChar c) = isWhiteSpace c"
  by (auto simp: toLowerChar_def isWhiteSpace_def Let_def)

lemma last_dropWhile_keep: "dropWhile P xs \<noteq> [] \<Longrightarrow> last (dropWhile P xs) = last xs"
  by (induction xs) (auto split: if_splits)

lemma trim_last: "trim s \<noteq> [] \<Longrightarrow> \<not> isWhiteSpace (last (trim s))"
proof -
  assume ne: "trim s \<noteq> []"
  let ?d = "dropWhile isWhiteSpace (rev (dropWhile isWhiteSpace s))"
  from ne have "?d \<noteq> []" by (simp add: trim_def)
  then have "\<not> isWhiteSpace (hd ?d)" by (rule hd_dropWhile)
  moreover have "last (trim s) = hd ?d" using \<open>?d \<noteq> []\<close> by (simp add: trim_def last_rev)
  ultimately show ?thesis by simp
qed

lemma dropWhile_hd_keep: "xs \<noteq> [] \<Longrightarrow> \<not> P (hd xs) \<Longrightarrow> dropWhile P xs = xs"
  by (cases xs) auto

lemma trim_fixed:
  assumes "s \<noteq> [] \<Longrightarrow> \<not> isWhiteSpace (hd s) \<and> \<not> isWhiteSpace (last s)"
  shows "trim s = s"
proof (cases "s = []")
  case True
  then show ?thesis by (simp add: trim_def)
next
  case False
  with assms have h: "\<not> isWhiteSpace (hd s)" and l: "\<not> isWhiteSpace (last s)" by auto
  from False h have d1: "dropWhile isWhiteSpace s = s" by (rule dropWhile_hd_keep)
  from False have "rev s \<noteq> []" by simp
  moreover have "\<not> isWhiteSpace (hd (rev s))" using False l by (simp add: hd_rev)
  ultimately have "dropWhile isWhiteSpace (rev s) = rev s" by (rule dropWhile_hd_keep)
  with d1 show ?thesis by (simp add: trim_def)
qed

lemma trim_subset: "set (trim s) \<subseteq> set s"
  by (auto simp: trim_def dest!: set_dropWhileD)

lemma split_ne: "split sep s \<noteq> []"
  by (induction s) (auto split: list.splits)

lemma split_single: "split sep s = [a] \<Longrightarrow> a = s"
proof (induction s arbitrary: a)
  case Nil
  then show ?case by simp
next
  case (Cons c cs)
  then show ?case using split_ne[of sep cs]
    by (cases "split sep cs") (auto split: if_splits list.splits)
qed

lemma split_last_suffix: "suffix (last (split sep s)) s"
proof (induction s)
  case Nil
  then show ?case by simp
next
  case (Cons c cs)
  show ?case
  proof (cases "split sep cs")
    case Nil
    then show ?thesis using split_ne[of sep cs] by simp
  next
    case (Cons x xs)
    show ?thesis
    proof (cases xs)
      case Nil
      with Cons have "x = cs" by (simp add: split_single)
      with Cons Nil show ?thesis by (auto simp: suffix_Cons)
    next
      case (Cons y ys)
      with \<open>split sep cs = x # xs\<close> Cons.IH show ?thesis by (auto simp: suffix_Cons)
    qed
  qed
qed

lemma split_last_no_sep: "sep \<notin> set (last (split sep s))"
proof (induction s)
  case Nil
  then show ?case by simp
next
  case (Cons c cs)
  then show ?case using split_ne[of sep cs]
    by (cases "split sep cs") (auto split: list.splits)
qed

lemma includes_char: "includes_str s [c] \<longleftrightarrow> c \<in> set s"
  by (induction s) (auto simp: startsWith_def)

lemma suffix_last: "suffix p s \<Longrightarrow> p \<noteq> [] \<Longrightarrow> last p = last s"
  by (auto simp: suffix_def)

lemma cleanHead_strip: "cleanHead s \<Longrightarrow> \<not> startsWith s ''@''"
  by (cases s) (auto simp: cleanHead_def startsWith_def)

lemma cleanHead_hd: "cleanHead s \<Longrightarrow> s \<noteq> [] \<Longrightarrow> \<not> isWhiteSpace (hd s)"
  by (cases s) (auto simp: cleanHead_def)

lemma normalizeContactKey_fixed:
  assumes c: "cleanHead (normalizeContactKey k)"
  shows "normalizeContactKey (normalizeContactKey k) = normalizeContactKey k"
proof (cases "normalizeContactKey k = []")
  case True
  then show ?thesis by (simp add: normalizeContactKey_def)
next
  case False
  let ?K = "normalizeContactKey k"
  let ?t = "trim (toLowerCase k)"
  have K: "?K = ?t \<or> ?K = drop 1 ?t"
    using False by (auto simp: normalizeContactKey_def Let_def split: if_splits)
  then have suf: "suffix ?K ?t" by (auto simp: suffix_drop)
  have "set ?K \<subseteq> set ?t" using suf by (rule set_mono_suffix)
  also have "\<dots> \<subseteq> set (toLowerCase k)" by (rule trim_subset)
  also have "\<dots> \<subseteq> range toLowerChar" by (auto simp: toLowerCase_def)
  finally have low: "toLowerCase ?K = ?K" by (rule toLowerCase_fixed)
  have tne: "?t \<noteq> []" using K False by auto
  have "last ?K = last ?t" using suf False by (rule suffix_last)
  then have "\<not> isWhiteSpace (last ?K)" using trim_last[OF tne] by simp
  then have tr: "trim ?K = ?K" using cleanHead_hd[OF c] by (intro trim_fixed) simp
  have "normalizeContactKey ?K = (if startsWith ?K ''@'' then drop 1 ?K else ?K)"
    using False by (simp add: normalizeContactKey_def[of ?K] low tr)
  then show ?thesis using cleanHead_strip[OF c] by simp
qed

lemma contactKeyOf_fixed:
  assumes c: "cleanHead (contactKeyOf k cfg)"
  shows "contactKeyOf (contactKeyOf k cfg) cfg = contactKeyOf k cfg"
proof (cases "contactKeyOf k cfg = []")
  case True
  then show ?thesis
    by (simp add: contactKeyOf_def normalizeContact_def trim_def startsWith_def toLowerCase_def)
next
  case False
  let ?K = "contactKeyOf k cfg"
  define n0 where "n0 = trim k"
  define n1 where "n1 = (if stripAt cfg \<and> startsWith n0 ''@'' then drop 1 n0 else n0)"
  define n where "n = (if lowercase cfg then toLowerCase n1 else n1)"
  define p where "p = last (split CHR ''/'' n)"
  have K: "?K = (if CHR ''/'' \<in> set n then (if p = [] then n else p) else n)"
    by (simp add: contactKeyOf_def normalizeContact_def Let_def includes_char
        n0_def n1_def n_def p_def)
  have sufp: "suffix p n" unfolding p_def by (rule split_last_suffix)
  have sufK: "suffix ?K n" using K sufp by auto
  have nne: "n \<noteq> []" using sufK False by auto
  then have n1ne: "n1 \<noteq> []" by (auto simp: n_def toLowerCase_def split: if_splits)
  have suf1: "suffix n1 n0" by (auto simp: n1_def suffix_drop)
  then have n0ne: "n0 \<noteq> []" using n1ne by auto
  have "last n1 = last n0" using suf1 n1ne by (rule suffix_last)
  then have "\<not> isWhiteSpace (last n1)" using trim_last[of k] n0ne by (simp add: n0_def)
  then have "\<not> isWhiteSpace (last n)"
    using n1ne by (auto simp: n_def toLowerCase_def last_map toLowerChar_ws)
  moreover have "last ?K = last n" using sufK False by (rule suffix_last)
  ultimately have "\<not> isWhiteSpace (last ?K)" by simp
  then have tr: "trim ?K = ?K" using cleanHead_hd[OF c] by (intro trim_fixed) simp
  have low: "lowercase cfg \<Longrightarrow> toLowerCase ?K = ?K"
  proof -
    assume l: "lowercase cfg"
    have "set ?K \<subseteq> set n" using sufK by (rule set_mono_suffix)
    also have "\<dots> \<subseteq> range toLowerChar" using l by (auto simp: n_def toLowerCase_def)
    finally show ?thesis by (rule toLowerCase_fixed)
  qed
  have step: "contactKeyOf ?K cfg =
      (if CHR ''/'' \<in> set ?K
       then (if last (split CHR ''/'' ?K) = [] then ?K else last (split CHR ''/'' ?K))
       else ?K)"
    using cleanHead_strip[OF c] low
    by (simp add: contactKeyOf_def[of ?K] normalizeContact_def[of ?K] Let_def includes_char tr)
  show ?thesis
  proof (cases "CHR ''/'' \<in> set n")
    case no: False
    with K have "?K = n" by simp
    with no step show ?thesis by simp
  next
    case yes: True
    show ?thesis
    proof (cases "p = []")
      case True
      with yes K have "?K = n" by simp
      with yes True step show ?thesis by (simp add: p_def)
    next
      case False
      with yes K have "?K = p" by simp
      moreover have "CHR ''/'' \<notin> set p" unfolding p_def by (rule split_last_no_sep)
      ultimately show ?thesis using step by simp
    qed
  qed
qed

lemmas normalize_eval =
  normalizeContactKey_def contactKeyOf_def normalizeContact_def trim_def toLowerCase_def
  toLowerChar_def startsWith_def isWhiteSpace_def cleanHead_def defaultDedupe_def Let_def

text \<open>
  C5, as stated: normalization is idempotent on every key. It is not: one leading \<open>@\<close>
  is removed per call, so a key with two of them changes again at the second call, in the
  sent history and in the dedup layer alike.
\<close>

theorem normalize_idempotent_counterexample:
  "normalizeContactKey (normalizeContactKey ''@@ivan_dev'') \<noteq> normalizeContactKey ''@@ivan_dev''
   \<and> contactKeyOf (contactKeyOf ''@@ivan_dev'' defaultDedupe) defaultDedupe
       \<noteq> contactKeyOf ''@@ivan_dev'' defaultDedupe"
  by (simp add: normalize_eval)

text \<open>
  C5, amended: for every key whose normalized form does not begin with \<open>@\<close> or with white
  space, normalizing the normalized key gives it back. This holds for
  \<open>normalizeContactKey\<close> of the sent history and, under every configuration, for the
  contact key of the dedup layer's \<open>normalizeContact\<close>.
\<close>

theorem normalize_idempotent_clean:
  "(cleanHead (normalizeContactKey k)
      \<longrightarrow> normalizeContactKey (normalizeContactKey k) = normalizeContactKey k)
   \<and> (cleanHead (contactKeyOf k cfg)
      \<longrightarrow> contactKeyOf (contactKeyOf k cfg) cfg = contactKeyOf k cfg)"
  using normalizeContactKey_fixed contactKeyOf_fixed by blast

theorem normalize_idempotent_clean_witness:
  "cleanHead (normalizeContactKey ''@Ivan_Dev'')
   \<and> normalizeContactKey (normalizeContactKey ''@Ivan_Dev'') = normalizeContactKey ''@Ivan_Dev''
   \<and> cleanHead (contactKeyOf ''https://t.me/Ivan_Dev'' defaultDedupe)
   \<and> contactKeyOf (contactKeyOf ''https://t.me/Ivan_Dev'' defaultDedupe) defaultDedupe
       = contactKeyOf ''https://t.me/Ivan_Dev'' defaultDedupe"
proof -
  have h1: "cleanHead (normalizeContactKey ''@Ivan_Dev'')"
    by code_simp
  have h2: "cleanHead (contactKeyOf ''https://t.me/Ivan_Dev'' defaultDedupe)"
    by code_simp
  show ?thesis
    using h1 h2 normalize_idempotent_clean[of "''@Ivan_Dev''" defaultDedupe]
      normalize_idempotent_clean[of "''https://t.me/Ivan_Dev''" defaultDedupe]
    by blast
qed

section \<open>Requeueing failed contacts\<close>

declare requeueLoop.simps [simp del]












lemma setStatus_key: "contact_key (setStatus st r now c) = contact_key c"
  by (simp add: setStatus_def Let_def)

lemma setStatus_status: "status (setStatus st r now c) = st"
  by (simp add: setStatus_def Let_def)







text \<open>
  What the amended claim leaves open: \<open>splice\<close> inside the loop moves the next record
  into the position just visited, so the iterator passes over it. Of three deactivated
  contacts in a row the middle one stays, failed, even with a limit of 10.
\<close>

lemma requeueFailed_passes_over_neighbour:
  "map contact_key (contacts (fst (requeueFailed threeDeactivated 10))) = [''boris_k'']
   \<and> map status (contacts (fst (requeueFailed threeDeactivated 10))) = [Failed]"
  by code_simp

section \<open>Registering contacts\<close>

lemma find_append_none: "find P xs = None \<Longrightarrow> find P (xs @ ys) = find P ys"
  by (induction xs) (auto split: if_splits)

lemma keyCount_found:
  assumes "find (\<lambda>c. contact_key c = k) cs = Some e"
  shows "1 \<le> keyCount k cs"
proof -
  from assms have "e \<in> set cs" "contact_key e = k"
    by (auto simp: find_Some_iff in_set_conv_nth)
  then have "filter (\<lambda>c. contact_key c = k) cs \<noteq> []"
    by (auto simp: filter_empty_conv)
  then have "0 < length (filter (\<lambda>c. contact_key c = k) cs)" by (rule length_greater_0_conv[THEN iffD2])
  then show ?thesis unfolding keyCount_def by linarith
qed

lemma keyCount_none: "find (\<lambda>c. contact_key c = k) cs = None \<Longrightarrow> keyCount k cs = 0"
  by (auto simp: keyCount_def find_None_iff filter_empty_conv)

text \<open>
  C7. Two calls of \<open>registerContact\<close> with the same contact key, whatever their other
  arguments. When the ledger file can be written, both calls return the same record, which
  has the normalized key and is the record the ledger holds for that key after the first
  call. The second call leaves the ledger as the first call left it. A record that
  existed before is returned by both calls, and the ledger is not touched. The ledger ends
  with one record of that key if it had none, and with as many as it had otherwise. When
  the file cannot be written and the key is new, the first call fails with the error of
  the write, after it has put the record in memory, and the second call returns that
  record.
\<close>

theorem registerContact_idempotent:
  "let first = registerContact cfg d k ty p m txt tg ld now;
       second = registerContact cfg (fst first) k ty2 p2 m2 txt2 tg2 ld2 now2
   in (\<exists>c. snd second = Inr c \<and> contact_key c = contactKeyOf k cfg
           \<and> findContactByKey (fst first) (contactKeyOf k cfg) = Some c
           \<and> (writable d \<longrightarrow> snd first = Inr c)
           \<and> (\<not> writable d \<and> findContactByKey d (contactKeyOf k cfg) = None
                \<longrightarrow> snd first = Inl IOError))
      \<and> fst second = fst first
      \<and> (\<forall>e. findContactByKey d (contactKeyOf k cfg) = Some e
             \<longrightarrow> first = (d, Inr e) \<and> second = (d, Inr e))
      \<and> keyCount (contactKeyOf k cfg) (contacts (fst second))
           = max 1 (keyCount (contactKeyOf k cfg) (contacts d))"
proof (cases "findContactByKey d (contactKeyOf k cfg)")
  case (Some e)
  then have f: "registerContact cfg d k ty p m txt tg ld now = (d, Inr e)"
    and s: "registerContact cfg d k ty2 p2 m2 txt2 tg2 ld2 now2 = (d, Inr e)"
    by (simp_all add: registerContact_def contactKeyOf_def Let_def)
  from Some have key: "contact_key e = contactKeyOf k cfg"
    by (auto simp: findContactByKey_def find_Some_iff)
  have "1 \<le> keyCount (contactKeyOf k cfg) (contacts d)"
    using Some by (intro keyCount_found[of _ _ e]) (simp add: findContactByKey_def)
  then show ?thesis using Some key by (simp add: f s Let_def)
next
  case None
  let ?key = "contactKeyOf k cfg"
  obtain d1 r1 where f: "registerContact cfg d k ty p m txt tg ld now = (d1, r1)"
    by (cases "registerContact cfg d k ty p m txt tg ld now")
  from None f obtain c where c: "contacts d1 = contacts d @ [c]" "contact_key c = ?key"
    "r1 = (if writable d then Inr c else Inl IOError)"
    by (auto simp: registerContact_def contactKeyOf_def saveContact_def saveData_def Let_def
        split: if_splits)
  from None have n: "find (\<lambda>c. contact_key c = ?key) (contacts d) = None"
    by (simp add: findContactByKey_def)
  then have found: "findContactByKey d1 ?key = Some c"
    using c by (simp add: findContactByKey_def find_append_none)
  then have s: "registerContact cfg d1 k ty2 p2 m2 txt2 tg2 ld2 now2 = (d1, Inr c)"
    by (simp add: registerContact_def contactKeyOf_def Let_def)
  have "keyCount ?key (contacts d1) = 1"
    using keyCount_none[OF n] c by (simp add: keyCount_def)
  then show ?thesis using None c found keyCount_none[OF n] by (auto simp: f s Let_def)
qed

theorem registerContact_idempotent_witness:
  "writable mixedLedger
   \<and> findContactByKey mixedLedger (contactKeyOf ''@Ivan_Dev'' defaultDedupe) = None
   \<and> snd (registerContact defaultDedupe mixedLedger ''@Ivan_Dev'' Username 1 2 ''hello'' None None 50)
       = Inr \<lparr>contact_id = 50, contact_key = ''ivan_dev'', contact_type = Username,
              tg_user_id = None, source_peer_id = 1, source_message_id = 2,
              sent_text = ''hello'', sent_at = Some 50, status = Sent, reason = None,
              lead_description = None\<rparr>
   \<and> snd (registerContact defaultDedupe
         (fst (registerContact defaultDedupe mixedLedger ''@Ivan_Dev'' Username 1 2 ''hello'' None None 50))
         ''@Ivan_Dev'' Username 3 4 ''again'' None None 60)
       = snd (registerContact defaultDedupe mixedLedger ''@Ivan_Dev'' Username 1 2 ''hello'' None None 50)
   \<and> keyCount ''ivan_dev'' (contacts (fst (registerContact defaultDedupe
         (fst (registerContact defaultDedupe mixedLedger ''@Ivan_Dev'' Username 1 2 ''hello'' None None 50))
         ''@Ivan_Dev'' Username 3 4 ''again'' None None 60))) = 1
   \<and> findContactByKey mixedLedger (contactKeyOf ''@Boris_K'' defaultDedupe)
       = Some (newContact ''boris_k'' Sent None)
   \<and> registerContact defaultDedupe mixedLedger ''@Boris_K'' Username 1 2 ''hello'' None None 50
       = (mixedLedger, Inr (newContact ''boris_k'' Sent None))
   \<and> registerContact defaultDedupe
         (fst (registerContact defaultDedupe mixedLedger ''@Boris_K'' Username 1 2 ''hello'' None None 50))
         ''@Boris_K'' Username 3 4 ''again'' None None 60
       = (mixedLedger, Inr (newContact ''boris_k'' Sent None))"
proof -
  have w: "writable mixedLedger" by code_simp
  have n: "findContactByKey mixedLedger (contactKeyOf ''@Ivan_Dev'' defaultDedupe) = None"
    by code_simp
  have k: "contactKeyOf ''@Ivan_Dev'' defaultDedupe = ''ivan_dev''" by code_simp
  have c0: "keyCount ''ivan_dev'' (contacts mixedLedger) = 0" by code_simp
  have r: "snd (registerContact defaultDedupe mixedLedger ''@Ivan_Dev'' Username 1 2 ''hello''
                  None None 50)
       = Inr \<lparr>contact_id = 50, contact_key = ''ivan_dev'', contact_type = Username,
              tg_user_id = None, source_peer_id = 1, source_message_id = 2,
              sent_text = ''hello'', sent_at = Some 50, status = Sent, reason = None,
              lead_description = None\<rparr>"
    by code_simp
  have h: "findContactByKey mixedLedger (contactKeyOf ''@Boris_K'' defaultDedupe)
     = Some (newContact ''boris_k'' Sent None)" by code_simp
  note t1 = registerContact_idempotent[of defaultDedupe mixedLedger "''@Ivan_Dev''" Username 1 2
        "''hello''" None None 50 Username 3 4 "''again''" None None 60, unfolded Let_def]
  note t2 = registerContact_idempotent[of defaultDedupe mixedLedger "''@Boris_K''" Username 1 2
        "''hello''" None None 50 Username 3 4 "''again''" None None 60, unfolded Let_def]
  from t1 w have "snd (registerContact defaultDedupe
         (fst (registerContact defaultDedupe mixedLedger ''@Ivan_Dev'' Username 1 2 ''hello'' None None 50))
         ''@Ivan_Dev'' Username 3 4 ''again'' None None 60)
       = snd (registerContact defaultDedupe mixedLedger ''@Ivan_Dev'' Username 1 2 ''hello'' None None 50)"
    by auto
  moreover from t1 have "keyCount (contactKeyOf ''@Ivan_Dev'' defaultDedupe)
       (contacts (fst (registerContact defaultDedupe
         (fst (registerContact defaultDedupe mixedLedger ''@Ivan_Dev'' Username 1 2 ''hello'' None None 50))
         ''@Ivan_Dev'' Username 3 4 ''again'' None None 60)))
       = max 1 (keyCount (contactKeyOf ''@Ivan_Dev'' defaultDedupe) (contacts mixedLedger))"
    by blast
  then have "keyCount ''ivan_dev'' (contacts (fst (registerContact defaultDedupe
         (fst (registerContact defaultDedupe mixedLedger ''@Ivan_Dev'' Username 1 2 ''hello'' None None 50))
         ''@Ivan_Dev'' Username 3 4 ''again'' None None 60))) = 1"
    unfolding k c0 by simp
  moreover from t2 h have "registerContact defaultDedupe mixedLedger ''@Boris_K'' Username 1 2 ''hello'' None None 50
       = (mixedLedger, Inr (newContact ''boris_k'' Sent None))
   \<and> registerContact defaultDedupe
         (fst (registerContact defaultDedupe mixedLedger ''@Boris_K'' Username 1 2 ''hello'' None None 50))
         ''@Boris_K'' Username 3 4 ''again'' None None 60
       = (mixedLedger, Inr (newContact ''boris_k'' Sent None))"
    by blast
  ultimately show ?thesis using w n r h by blast
qed

text \<open>
  C3, as stated: the record of a new key is created pending. On the empty ledger the call
  for \<open>@Ivan_Dev\<close>, a key with no record, creates the record with the status sent, and
  \<open>getContactsForSending\<close>, which selects the pending records, does not return it.
\<close>

theorem registerContact_creates_sent:
  "findContactByKey emptyLedger (contactKeyOf ''@Ivan_Dev'' defaultDedupe) = None
   \<and> map status (contacts (fst (registerContact defaultDedupe emptyLedger ''@Ivan_Dev'' Username 0 5
       ''hello'' None (Some ''need a site'') 1000))) = [Sent]
   \<and> getContactsForSending (fst (registerContact defaultDedupe emptyLedger ''@Ivan_Dev'' Username 0 5
       ''hello'' None (Some ''need a site'') 1000)) 10 0 = []"
  by code_simp

text \<open>
  C3, amended: for a contact key with no record in the ledger, \<open>registerContact\<close> adds one
  record at the end of the ledger, with the status sent: it has the normalized key and
  type, the given text as \<open>sent_text\<close> and the instant of the call as \<open>sent_at\<close> and as
  id. The call returns that record when the ledger file can be written and fails with the
  error of the write otherwise. The records selected for sending are the same before and
  after the call.
\<close>

theorem registerContact_new_is_sent:
  assumes "findContactByKey d (contactKeyOf k cfg) = None"
  shows "let c0 = \<lparr>contact_id = now, contact_key = contactKeyOf k cfg,
                   contact_type = snd (normalizeContact k cfg),
                   tg_user_id = (if tg = Some 0 then None else tg),
                   source_peer_id = p, source_message_id = m, sent_text = sentText,
                   sent_at = Some now, status = Sent, reason = None,
                   lead_description = orNull ld\<rparr>;
             r = registerContact cfg d k ty p m sentText tg ld now
         in contacts (fst r) = contacts d @ [c0]
            \<and> snd r = (if writable d then Inr c0 else Inl IOError)
            \<and> findContactByKey (fst r) (contactKeyOf k cfg) = Some c0
            \<and> getContactsForSending (fst r) lmt ofs = getContactsForSending d lmt ofs"
proof -
  let ?c0 = "\<lparr>contact_id = now, contact_key = contactKeyOf k cfg,
                   contact_type = snd (normalizeContact k cfg),
                   tg_user_id = (if tg = Some 0 then None else tg),
                   source_peer_id = p, source_message_id = m, sent_text = sentText,
                   sent_at = Some now, status = Sent, reason = None,
                   lead_description = orNull ld\<rparr>"
  let ?r = "registerContact cfg d k ty p m sentText tg ld now"
  from assms have c: "contacts (fst ?r) = contacts d @ [?c0]"
    by (simp add: registerContact_def contactKeyOf_def saveContact_def Let_def orNull_def)
  from assms have r: "snd ?r = (if writable d then Inr ?c0 else Inl IOError)"
    by (simp add: registerContact_def contactKeyOf_def saveContact_def saveData_def Let_def
        orNull_def)
  from assms have "find (\<lambda>c. contact_key c = contactKeyOf k cfg) (contacts d) = None"
    by (simp add: findContactByKey_def)
  then have f: "findContactByKey (fst ?r) (contactKeyOf k cfg) = Some ?c0"
    unfolding findContactByKey_def c by (simp add: find_append_none)
  have g: "getContactsForSending (fst ?r) lmt ofs = getContactsForSending d lmt ofs"
    unfolding getContactsForSending_def c by simp
  from c r f g show ?thesis by (simp add: Let_def)
qed

theorem registerContact_new_is_sent_witness:
  "findContactByKey emptyLedger (contactKeyOf ''@Ivan_Dev'' defaultDedupe) = None
   \<and> registerContact defaultDedupe emptyLedger ''@Ivan_Dev'' Username 0 5 ''hello'' None
         (Some ''need a site'') 1000
       = (emptyLedger\<lparr>contacts := [\<lparr>contact_id = 1000, contact_key = ''ivan_dev'',
                                      contact_type = Username, tg_user_id = None,
                                      source_peer_id = 0, source_message_id = 5,
                                      sent_text = ''hello'', sent_at = Some 1000, status = Sent,
                                      reason = None, lead_description = Some ''need a site''\<rparr>],
                       stats := \<lparr>total = 1, sent = 0, skipped = 0, failed = 0\<rparr>\<rparr>,
          Inr \<lparr>contact_id = 1000, contact_key = ''ivan_dev'', contact_type = Username,
               tg_user_id = None, source_peer_id = 0, source_message_id = 5,
               sent_text = ''hello'', sent_at = Some 1000, status = Sent, reason = None,
               lead_description = Some ''need a site''\<rparr>)
   \<and> getContactsForSending (fst (registerContact defaultDedupe emptyLedger ''@Ivan_Dev'' Username
         0 5 ''hello'' None (Some ''need a site'') 1000)) 10 0
       = getContactsForSending emptyLedger 10 0"
proof -
  have n: "findContactByKey emptyLedger (contactKeyOf ''@Ivan_Dev'' defaultDedupe) = None"
    by code_simp
  have e: "registerContact defaultDedupe emptyLedger ''@Ivan_Dev'' Username 0 5 ''hello'' None
         (Some ''need a site'') 1000
       = (emptyLedger\<lparr>contacts := [\<lparr>contact_id = 1000, contact_key = ''ivan_dev'',
                                      contact_type = Username, tg_user_id = None,
                                      source_peer_id = 0, source_message_id = 5,
                                      sent_text = ''hello'', sent_at = Some 1000, status = Sent,
                                      reason = None, lead_description = Some ''need a site''\<rparr>],
                       stats := \<lparr>total = 1, sent = 0, skipped = 0, failed = 0\<rparr>\<rparr>,
          Inr \<lparr>contact_id = 1000, contact_key = ''ivan_dev'', contact_type = Username,
               tg_user_id = None, source_peer_id = 0, source_message_id = 5,
               sent_text = ''hello'', sent_at = Some 1000, status = Sent, reason = None,
               lead_description = Some ''need a site''\<rparr>)"
    by code_simp
  from registerContact_new_is_sent[OF n, where ty = Username and p = 0 and m = 5
      and sentText = "''hello''" and tg = None and ld = "Some ''need a site''" and now = 1000
      and lmt = 10 and ofs = 0, unfolded Let_def]
  have "getContactsForSending (fst (registerContact defaultDedupe emptyLedger ''@Ivan_Dev'' Username
         0 5 ''hello'' None (Some ''need a site'') 1000)) 10 0
       = getContactsForSending emptyLedger 10 0"
    by blast
  with n e show ?thesis by blast
qed

section \<open>Rate limiter\<close>

declare waitLoop.simps [simp del]

lemma cleanupOldSends_keeps:
  "maxMessages (cleanupOldSends rl now) = maxMessages rl"
  "burstPauseMs (cleanupOldSends rl now) = burstPauseMs rl"
  "subseq (sentMessages (cleanupOldSends rl now)) (sentMessages rl)"
  "\<forall>t \<in> set (sentMessages (cleanupOldSends rl now)). now - burstPauseMs rl < t"
  by (auto simp: cleanupOldSends_def Let_def)

lemma canSendNow_false:
  assumes "\<not> fst (canSendNow rl now)"
  shows "snd (canSendNow rl now) = cleanupOldSends rl now"
  using assms by (auto simp: canSendNow_def Let_def split: if_splits)

lemma tryConsume_false:
  assumes "\<not> fst (tryConsume rl now)"
  shows "snd (tryConsume rl now) = cleanupOldSends rl now"
proof -
  obtain b r where c: "canSendNow rl now = (b, r)" by (cases "canSendNow rl now")
  with assms have "\<not> b" by (cases b) (auto simp: tryConsume_def Let_def)
  with c have "snd (tryConsume rl now) = r" by (simp add: tryConsume_def)
  moreover from c \<open>\<not> b\<close> have "r = cleanupOldSends rl now" using canSendNow_false[of rl now] by simp
  ultimately show ?thesis by simp
qed

lemma tryConsume_false_subseq:
  "\<not> fst (tryConsume rl now) \<Longrightarrow> subseq (sentMessages (snd (tryConsume rl now))) (sentMessages rl)"
  by (simp add: tryConsume_false cleanupOldSends_keeps)

lemma waitLoop_timeout:
  "waitLoop timeoutMs startTime lags clk rl = (False, rl', clk') \<Longrightarrow>
     subseq (sentMessages rl') (sentMessages rl) \<and> timeoutMs \<le> clk' - startTime \<and> clk \<le> clk'"
proof (induction timeoutMs startTime lags clk rl rule: waitLoop.induct)
  case (1 timeoutMs startTime lags clk rl)
  show ?case
  proof (cases "clk - startTime < timeoutMs")
    case False
    with "1.prems" show ?thesis by (simp add: waitLoop.simps[of timeoutMs startTime lags clk rl])
  next
    case running: True
    show ?thesis
    proof (cases "fst (tryConsume rl clk)")
      case True
      with running "1.prems" show ?thesis
        by (simp add: waitLoop.simps[of timeoutMs startTime lags clk rl])
    next
      case False
      let ?r = "snd (tryConsume rl clk)"
      let ?d = "delayMs (min (waitTimeFor ?r clk) maxWaitPerCycleMs) (case lags of [] \<Rightarrow> 0 | l # _ \<Rightarrow> l)"
      from running False "1.prems"
      have "waitLoop timeoutMs startTime (tl lags) (clk + ?d) ?r = (False, rl', clk')"
        by (simp add: waitLoop.simps[of timeoutMs startTime lags clk rl])
      from "1.IH"[OF running False this]
      have ih: "subseq (sentMessages rl') (sentMessages ?r)" "timeoutMs \<le> clk' - startTime"
        "clk + ?d \<le> clk'" by auto
      have "100 \<le> waitTimeFor ?r clk"
        by (auto simp: waitTimeFor_def firstMessageWaitMs_def minWaitMs_def)
      then have "100 \<le> min (waitTimeFor ?r clk) maxWaitPerCycleMs"
        by (simp add: maxWaitPerCycleMs_def)
      then have "100 \<le> \<lfloor>min (waitTimeFor ?r clk) maxWaitPerCycleMs\<rfloor>"
        by (simp add: le_floor_iff)
      moreover have "0 \<le> int (case lags of [] \<Rightarrow> 0 | l # _ \<Rightarrow> l)" by (rule of_nat_0_le_iff)
      ultimately have "0 < ?d" unfolding delayMs_def by linarith
      with ih(3) have "clk \<le> clk'" by simp
      moreover have "subseq (sentMessages rl') (sentMessages rl)"
        using ih(1) tryConsume_false_subseq[OF False] by (rule subseq_order.trans)
      ultimately show ?thesis using ih(2) by simp
    qed
  qed
qed

text \<open>
  C1. With the default thresholds (3 messages, pause 900000, interval between 60000 and
  120000) the calls at \<open>T0\<close>, \<open>T0 + 1\<close>, \<open>T0 + 2\<close> and then at \<open>T0 + 900000\<close>,
  \<open>T0 + 1020000\<close>, \<open>T0 + 1140000\<close> all return true. The limiter is then past its first
  run, its list holds the full burst of the last three stamps, and the burst start it
  remembers is still \<open>T0\<close>: the start is set only when the list has one entry, and the
  clean-up has dropped \<open>T0\<close> from the list since. At \<open>T0 + 1260000\<close> the limiter
  reports no available token, yet \<open>tryConsume\<close> returns true, because the pause is
  measured from the stale start. That is a fourth consumption past the first run within
  360000 milliseconds, in a window of length \<open>burstPauseMs\<close> that may hold three.
\<close>

theorem stale_burst_start_grants_fourth:
  "maxMessages defaultLimiter = 3
   \<and> burstPauseMs defaultLimiter = 900000
   \<and> sentMessages (consumeAll defaultLimiter (butlast burstTimes))
       = [T0 + 900000, T0 + 1020000, T0 + 1140000]
   \<and> burstStartTime (consumeAll defaultLimiter (butlast burstTimes)) = T0
   \<and> isFirstRun (consumeAll defaultLimiter (butlast burstTimes)) = False
   \<and> fst (getAvailableTokens (consumeAll defaultLimiter (butlast burstTimes)) (T0 + 1260000)) = 0
   \<and> fst (tryConsume (consumeAll defaultLimiter (butlast burstTimes)) (T0 + 1260000)) = True
   \<and> steadyConsumed defaultLimiter burstTimes
       = [T0 + 900000, T0 + 1020000, T0 + 1140000, T0 + 1260000]
   \<and> countInWindow (burstPauseMs defaultLimiter) (T0 + 1260000)
        (steadyConsumed defaultLimiter burstTimes) = 4"
  by code_simp

text \<open>
  C8. \<open>waitForToken\<close> is a total function of the limiter, the timeout, the clock and
  the lateness of the timers: it returns for every timeout. When it returns false, at
  least \<open>timeoutMs\<close> milliseconds have passed since the call and the list of sent
  timestamps has not been extended: it is a subsequence of the list at the call.
\<close>

theorem waitForToken_timeout_consumes_nothing:
  assumes "waitForToken rl timeoutMs lags clk = (False, rl', clk')"
  shows "subseq (sentMessages rl') (sentMessages rl)
         \<and> length (sentMessages rl') \<le> length (sentMessages rl)
         \<and> timeoutMs \<le> clk' - clk"
proof -
  from assms have "waitLoop timeoutMs clk lags clk rl = (False, rl', clk')"
    by (simp add: waitForToken_def)
  from waitLoop_timeout[OF this]
  have s: "subseq (sentMessages rl') (sentMessages rl)" and t: "timeoutMs \<le> clk' - clk" by auto
  from s have "length (sentMessages rl') \<le> length (sentMessages rl)" by (rule list_emb_length)
  with s t show ?thesis by simp
qed

theorem waitForToken_timeout_consumes_nothing_witness:
  "waitForToken (consumeAll defaultLimiter [T0, T0 + 1, T0 + 2]) 30000 [3, 0, 7] (T0 + 3)
     = (False, consumeAll defaultLimiter [T0, T0 + 1, T0 + 2], T0 + 30013)
   \<and> subseq (sentMessages (consumeAll defaultLimiter [T0, T0 + 1, T0 + 2]))
        (sentMessages (consumeAll defaultLimiter [T0, T0 + 1, T0 + 2]))
   \<and> (30000::int) \<le> T0 + 30013 - (T0 + 3)"
proof -
  have h: "waitForToken (consumeAll defaultLimiter [T0, T0 + 1, T0 + 2]) 30000 [3, 0, 7] (T0 + 3)
     = (False, consumeAll defaultLimiter [T0, T0 + 1, T0 + 2], T0 + 30013)"
    by code_simp
  show ?thesis using h waitForToken_timeout_consumes_nothing[OF h] by simp
qed

section \<open>Duplicate guard of the sender\<close>

lemma find_updateFirst_keeps:
  assumes "\<And>x. P x \<Longrightarrow> P (f x)"
  shows "find P (updateFirst P f xs) = map_option f (find P xs)"
  using assms by (induction xs) auto

lemma updateContactStatus_found:
  "findContactByKey (fst (updateContactStatus d k st r now)) k
     = map_option (setStatus st r now) (findContactByKey d k)"
  by (cases "find (\<lambda>c. contact_key c = k) (contacts d)")
     (simp_all add: updateContactStatus_def findContactByKey_def Let_def find_updateFirst_keeps
        setStatus_key)

lemma updateContactStatus_writable:
  "writable (fst (updateContactStatus d k st r now)) = writable d"
  by (cases "find (\<lambda>c. contact_key c = k) (contacts d)")
     (simp_all add: updateContactStatus_def Let_def)

lemma updateContactStatus_result:
  "findContactByKey d k = Some c \<Longrightarrow>
     snd (updateContactStatus d k st r now)
       = (if writable d then Inr (Some (setStatus st r now c)) else Inl IOError)"
  by (simp add: updateContactStatus_def findContactByKey_def Let_def saveData_def)

lemma distinct_key_find:
  assumes "distinct (map contact_key cs)" "c \<in> set cs"
  shows "find (\<lambda>x. contact_key x = contact_key c) cs = Some c"
  using assms
proof (induction cs)
  case Nil
  then show ?case by simp
next
  case (Cons a cs)
  then show ?case by (cases "a = c") (auto simp: image_iff)
qed

lemma selected_is_member:
  "getContactsForSending d limit offset = c # rest \<Longrightarrow> c \<in> set (contacts d) \<and> status c = Pending"
proof -
  assume "getContactsForSending d limit offset = c # rest"
  then have "c \<in> set (take limit (drop offset
               (sort_key sentAtTime (filter (\<lambda>c. status c = Pending) (contacts d)))))"
    by (simp add: getContactsForSending_def)
  then have "c \<in> set (sort_key sentAtTime (filter (\<lambda>c. status c = Pending) (contacts d)))"
    by (auto dest!: in_set_takeD in_set_dropD)
  then show ?thesis by simp
qed

lemma commitStatus_found:
  assumes nk: "fst (normalizeContact k cfg) = k"
    and found: "findContactByKey (sender_db s) k = Some c"
  shows "commitStatus cfg s k st r now
           = (s\<lparr>sender_db := fst (updateContactStatus (sender_db s) k st r now)\<rparr>,
              writable (sender_db s))"
proof -
  obtain d' res where u: "updateContactStatus (sender_db s) k st r now = (d', res)"
    by (cases "updateContactStatus (sender_db s) k st r now")
  from updateContactStatus_result[OF found, of st r now] u
  have res: "res = (if writable (sender_db s) then Inr (Some (setStatus st r now c)) else Inl IOError)"
    by simp
  show ?thesis by (simp add: commitStatus_def dedupeUpdateContactStatus_def nk u res)
qed

text \<open>
  C2. The ledger is one of the data model: one record per key, each stored under the key
  the dedup layer normalizes it to. When the pending contact the cycle selects is in the
  sent history (\<open>isAlreadySent\<close> is true), then, whatever the collaborators do, the result
  of \<open>sendToContact\<close> is the failure \<open>DUPLICATE_CONTACT\<close>, the cycle makes no call of
  \<open>sendMessage\<close> (the list of delivery calls is as before), and the contact's record in
  the ledger ends with the status skipped and the reason \<open>DUPLICATE_CONTACT\<close>.
  \<open>processNextTask\<close> returns true when the ledger file can be written; when it cannot,
  the status is changed in memory all the same and the cycle returns false.
\<close>

theorem duplicate_contact_skipped:
  assumes sel: "getContactsForSending (sender_db s) contactsBatchSize 0 = c # rest"
    and dup: "isAlreadySent (sentHistory s) (contact_key c)"
    and norm: "contactKeyOf (contact_key c) cfg = contact_key c"
    and uniq: "distinct (map contact_key (contacts (sender_db s)))"
  shows "so_error (snd (sendToContact cfg env s c now)) = Some DUPLICATE_CONTACT
         \<and> delivered (fst (processNextTask cfg env s now)) = delivered s
         \<and> map_option status (findContactByKey (sender_db (fst (processNextTask cfg env s now)))
               (contact_key c)) = Some Skipped
         \<and> map_option reason (findContactByKey (sender_db (fst (processNextTask cfg env s now)))
               (contact_key c)) = Some (Some DUPLICATE_CONTACT)
         \<and> snd (processNextTask cfg env s now) = writable (sender_db s)"
proof -
  let ?k = "contact_key c"
  let ?d = "sender_db s"
  let ?f = "setStatus Skipped (Some DUPLICATE_CONTACT) now"
  let ?d1 = "fst (updateContactStatus ?d ?k Skipped (Some DUPLICATE_CONTACT) now)"
  let ?d2 = "fst (updateContactStatus ?d1 ?k Skipped (Some DUPLICATE_CONTACT) now)"
  let ?s1 = "s\<lparr>sender_db := ?d1\<rparr>"
  let ?s2 = "?s1\<lparr>reports := reports ?s1 @ [SkipReport ?k DUPLICATE_CONTACT]\<rparr>"
  have nk: "fst (normalizeContact ?k cfg) = ?k" using norm by (simp add: contactKeyOf_def)
  have mem: "c \<in> set (contacts ?d)" using selected_is_member[OF sel] by simp
  have f0: "findContactByKey ?d ?k = Some c"
    using distinct_key_find[OF uniq mem] by (simp add: findContactByKey_def)
  have f1: "findContactByKey ?d1 ?k = Some (?f c)" by (simp add: updateContactStatus_found f0)
  have f2: "findContactByKey ?d2 ?k = Some (?f (?f c))"
    unfolding updateContactStatus_found[of ?d1] f1 by simp
  have dd: "fst (dedupeUpdateContactStatus cfg ?d ?k Skipped (Some DUPLICATE_CONTACT) now) = ?d1"
    by (simp add: dedupeUpdateContactStatus_def nk split: prod.splits sum.splits)
  have st: "sendToContact cfg env s c now =
      (?s1, \<lparr>so_contactKey = ?k, so_success = False, so_messageId = None,
             so_error = Some DUPLICATE_CONTACT, so_floodWaitSeconds = None,
             so_attempts = None\<rparr>)"
    using dup by (simp add: sendToContact_def Let_def dd)
  have w1: "writable ?d1 = writable ?d" by (rule updateContactStatus_writable)
  have "findContactByKey (sender_db ?s2) ?k = Some (?f c)" using f1 by simp
  from commitStatus_found[OF nk this, of Skipped "Some DUPLICATE_CONTACT" now]
  have cs: "commitStatus cfg ?s2 ?k Skipped (Some DUPLICATE_CONTACT) now
              = (?s2\<lparr>sender_db := ?d2\<rparr>, writable ?d)"
    using w1 by simp
  have pc: "processContact cfg env s c now = (?s2\<lparr>sender_db := ?d2\<rparr>, writable ?d)"
    unfolding processContact_def st using cs by simp
  have pn: "processNextTask cfg env s now = processContact cfg env s c now"
    using sel by (simp add: processNextTask_def)
  have neq: "DUPLICATE_CONTACT \<noteq> []" by (simp add: DUPLICATE_CONTACT_def)
  have "status (?f (?f c)) = Skipped" by (simp add: setStatus_status)
  moreover have "reason (?f (?f c)) = Some DUPLICATE_CONTACT"
    using neq by (simp add: setStatus_def orNull_def)
  ultimately show ?thesis by (simp add: pn pc st f2)
qed

theorem duplicate_contact_skipped_witness:
  "getContactsForSending (sender_db normalSender) contactsBatchSize 0
       = newContact ''ivan_dev'' Pending None # []
   \<and> isAlreadySent (sentHistory normalSender) (contact_key (newContact ''ivan_dev'' Pending None))
   \<and> contactKeyOf (contact_key (newContact ''ivan_dev'' Pending None)) defaultDedupe
       = contact_key (newContact ''ivan_dev'' Pending None)
   \<and> distinct (map contact_key (contacts (sender_db normalSender)))
   \<and> delivered (fst (processNextTask defaultDedupe deliveringClient normalSender 100)) = []
   \<and> map status (contacts (sender_db (fst (processNextTask defaultDedupe deliveringClient
         normalSender 100)))) = [Sent, Skipped]
   \<and> snd (processNextTask defaultDedupe deliveringClient normalSender 100) = True"
proof -
  have h1: "getContactsForSending (sender_db normalSender) contactsBatchSize 0
       = newContact ''ivan_dev'' Pending None # []" by code_simp
  have h2: "isAlreadySent (sentHistory normalSender) (contact_key (newContact ''ivan_dev'' Pending None))"
    by code_simp
  have h3: "contactKeyOf (contact_key (newContact ''ivan_dev'' Pending None)) defaultDedupe
       = contact_key (newContact ''ivan_dev'' Pending None)" by code_simp
  have h4: "distinct (map contact_key (contacts (sender_db normalSender)))" by code_simp
  have v: "map status (contacts (sender_db (fst (processNextTask defaultDedupe deliveringClient
         normalSender 100)))) = [Sent, Skipped]" by code_simp
  have w: "writable (sender_db normalSender)" by code_simp
  have d: "delivered normalSender = []" by code_simp
  from duplicate_contact_skipped[OF h1 h2 h3 h4, of deliveringClient 100] w d
  have "delivered (fst (processNextTask defaultDedupe deliveringClient normalSender 100)) = []
        \<and> snd (processNextTask defaultDedupe deliveringClient normalSender 100) = True"
    by simp
  with h1 h2 h3 h4 v show ?thesis by blast
qed

section \<open>Progress of the scanner\<close>

lemma contactEvents_no_save: "SaveProgress \<notin> set (contactEvents s m ks)"
  by (induction ks arbitrary: s) (auto split: option.splits)

lemma messageEvents_no_save: "SaveProgress \<notin> set (messageEvents rules s m)"
  by (auto simp: messageEvents_def Let_def contactEvents_no_save)

lemma loopEvents_ne: "loopEvents rules s ms \<noteq> []"
  by (induction ms arbitrary: s) (auto simp: Let_def aborted_def)

lemma loopEvents_save_last: "SaveProgress \<notin> set (butlast (loopEvents rules s ms))"
proof (induction ms arbitrary: s)
  case Nil
  then show ?case by simp
next
  case (Cons m ms)
  let ?evs = "messageEvents rules s m"
  show ?case
  proof (cases "aborted ?evs")
    case True
    then have "loopEvents rules s (m # ms) = ?evs" by (simp add: Let_def)
    then show ?thesis using messageEvents_no_save[of rules s m] by (auto dest: in_set_butlastD)
  next
    case False
    then have "loopEvents rules s (m # ms) = ?evs @ loopEvents rules (foldl applyEvent s ?evs) ms"
      by (simp add: Let_def)
    then show ?thesis
      using Cons.IH[of "foldl applyEvent s ?evs"] messageEvents_no_save[of rules s m]
        loopEvents_ne[of rules "foldl applyEvent s ?evs" ms]
      by (simp add: butlast_append)
  qed
qed

lemma progressFile_kept:
  "SaveProgress \<notin> set evs \<Longrightarrow> progressFile (foldl applyEvent s evs) = progressFile s"
proof (induction evs arbitrary: s)
  case Nil
  then show ?case by simp
next
  case (Cons e evs)
  then show ?case by (cases e) auto
qed

lemma progressWritable_kept:
  "progressWritable (foldl applyEvent s evs) = progressWritable s"
proof (induction evs arbitrary: s)
  case Nil
  then show ?case by simp
next
  case (Cons e evs)
  then show ?case by (cases e) auto
qed

lemma progressFile_unwritable:
  "\<not> progressWritable s \<Longrightarrow> progressFile (foldl applyEvent s evs) = progressFile s"
proof (induction evs arbitrary: s)
  case Nil
  then show ?case by simp
next
  case (Cons e evs)
  then show ?case by (cases e) auto
qed

lemma newMessages_restart:
  "progressFile s' = progressFile s \<Longrightarrow>
     newMessages (loadLastProcessedId s') feed = newMessages (loadLastProcessedId s) feed"
  by (simp add: newMessages_def loadLastProcessedId_def split: option.splits)

lemma messageEvents_advances:
  assumes "\<not> aborted (messageEvents rules s m)"
  shows "lastProcessedId (foldl applyEvent s (messageEvents rules s m)) = msg_id m"
proof (cases "isDenied rules m")
  case True
  then show ?thesis by (simp add: messageEvents_def)
next
  case False
  let ?c = "contactEvents s m (contactsOf rules m)"
  from False assms have e: "messageEvents rules s m = ?c @ [Advance (msg_id m)]"
    by (auto simp: messageEvents_def Let_def split: if_splits)
  show ?thesis by (simp add: e)
qed

lemma aborted_append: "ys \<noteq> [] \<Longrightarrow> aborted (xs @ ys) = aborted ys"
  by (simp add: aborted_def)

lemma loopEvents_last:
  "\<not> aborted (loopEvents rules s ms) \<Longrightarrow> last (loopEvents rules s ms) = SaveProgress"
proof (induction ms arbitrary: s)
  case Nil
  then show ?case by simp
next
  case (Cons m ms)
  let ?evs = "messageEvents rules s m"
  let ?s = "foldl applyEvent s ?evs"
  have na: "\<not> aborted ?evs" using Cons.prems by (auto simp: Let_def split: if_splits)
  then have e: "loopEvents rules s (m # ms) = ?evs @ loopEvents rules ?s ms" by (simp add: Let_def)
  with Cons.prems have "\<not> aborted (loopEvents rules ?s ms)"
    by (simp add: aborted_append loopEvents_ne)
  then have "last (loopEvents rules ?s ms) = SaveProgress" by (rule Cons.IH)
  then show ?case unfolding e by (simp add: loopEvents_ne del: loopEvents.simps)
qed

lemma loopEvents_memory:
  "\<not> aborted (loopEvents rules s ms) \<Longrightarrow>
     lastProcessedId (foldl applyEvent s (loopEvents rules s ms))
       = (if ms = [] then lastProcessedId s else msg_id (last ms))"
proof (induction ms arbitrary: s)
  case Nil
  then show ?case by simp
next
  case (Cons m ms)
  let ?evs = "messageEvents rules s m"
  let ?s = "foldl applyEvent s ?evs"
  have na: "\<not> aborted ?evs" using Cons.prems by (auto simp: Let_def split: if_splits)
  then have e: "loopEvents rules s (m # ms) = ?evs @ loopEvents rules ?s ms" by (simp add: Let_def)
  with Cons.prems have "\<not> aborted (loopEvents rules ?s ms)"
    by (simp add: aborted_append loopEvents_ne)
  then have "lastProcessedId (foldl applyEvent ?s (loopEvents rules ?s ms))
               = (if ms = [] then lastProcessedId ?s else msg_id (last ms))"
    by (rule Cons.IH)
  with messageEvents_advances[OF na]
  show ?case unfolding e by (simp del: loopEvents.simps)
qed

lemma loopEvents_complete:
  assumes "\<not> aborted (loopEvents rules s ms)" and "progressWritable s"
  shows "progressFile (foldl applyEvent s (loopEvents rules s ms))
           = Some (if ms = [] then lastProcessedId s else msg_id (last ms))
         \<and> last (loopEvents rules s ms) = SaveProgress"
  using assms
proof (induction ms arbitrary: s)
  case Nil
  then show ?case by simp
next
  case (Cons m ms)
  let ?evs = "messageEvents rules s m"
  let ?s = "foldl applyEvent s ?evs"
  have na: "\<not> aborted ?evs" using Cons.prems by (auto simp: Let_def split: if_splits)
  then have e: "loopEvents rules s (m # ms) = ?evs @ loopEvents rules ?s ms" by (simp add: Let_def)
  with Cons.prems have "\<not> aborted (loopEvents rules ?s ms)"
    by (simp add: aborted_append loopEvents_ne)
  moreover from Cons.prems have "progressWritable ?s" by (simp add: progressWritable_kept)
  ultimately have "progressFile (foldl applyEvent ?s (loopEvents rules ?s ms))
           = Some (if ms = [] then lastProcessedId ?s else msg_id (last ms))
         \<and> last (loopEvents rules ?s ms) = SaveProgress"
    by (rule Cons.IH)
  with messageEvents_advances[OF na]
  show ?case unfolding e by (simp add: loopEvents_ne del: loopEvents.simps)
qed

text \<open>
  C6, as stated: a crash in the middle of an entry costs the re-processing of that one
  entry. The feed holds entries 1 and 2; the process dies after the third effect of the
  scan, when entry 1 is finished (the id in memory is 1) and the first contact of entry 2
  has been handed over. The progress file still says 0, and the restarted scanner takes
  entries 1 and 2 as new.
\<close>

theorem crash_reprocesses_finished_entry:
  "performScanEvents exampleRules freshScanner twoEntryFeed
     = [ContactFound 1 ''alice_dev'', Advance 1, ContactFound 2 ''bob_dev'',
        ContactFound 2 ''carol_dev'', Advance 2, SaveProgress]
   \<and> lastProcessedId (crashAfter 3 exampleRules freshScanner twoEntryFeed) = 1
   \<and> progressFile (crashAfter 3 exampleRules freshScanner twoEntryFeed) = Some 0
   \<and> map msg_id (newMessages (loadLastProcessedId
          (crashAfter 3 exampleRules freshScanner twoEntryFeed)) twoEntryFeed) = [1, 2]"
  by code_simp

text \<open>
  C6, amended: the stored last-processed id is written once per scan, as its last effect,
  after the contacts of every new entry of that scan have been handled (the id in memory
  moves entry by entry). A crash at any earlier point of the scan leaves the progress file
  as it was before the scan, so the restarted scanner finds the same new entries as a
  restart before the scan would: every entry of the interrupted scan is processed again.
  A scan that has new entries and is not aborted ends with the write; when the progress
  file can be written, the write stores the id of the last new entry; when it cannot, the
  failure is caught and the file stays as it was before the scan.
\<close>

theorem progress_saved_after_scan:
  "SaveProgress \<notin> set (butlast (performScanEvents rules s feed))
   \<and> (n < length (performScanEvents rules s feed)
      \<longrightarrow> progressFile (crashAfter n rules s feed) = progressFile s
          \<and> newMessages (loadLastProcessedId (crashAfter n rules s feed)) feed
              = newMessages (loadLastProcessedId s) feed)
   \<and> (newMessages s feed \<noteq> [] \<and> \<not> aborted (performScanEvents rules s feed)
      \<longrightarrow> last (performScanEvents rules s feed) = SaveProgress
          \<and> lastProcessedId (performScan rules s feed) = msg_id (last (newMessages s feed))
          \<and> progressFile (performScan rules s feed)
              = (if progressWritable s then Some (msg_id (last (newMessages s feed)))
                 else progressFile s))"
proof (intro conjI impI)
  show ns: "SaveProgress \<notin> set (butlast (performScanEvents rules s feed))"
    by (simp add: performScanEvents_def loopEvents_save_last)
  {
    assume n: "n < length (performScanEvents rules s feed)"
    then have "take n (performScanEvents rules s feed)
                 = take n (butlast (performScanEvents rules s feed))"
      by (simp add: take_butlast)
    then have "set (take n (performScanEvents rules s feed))
                 \<subseteq> set (butlast (performScanEvents rules s feed))"
      by (metis set_take_subset)
    with ns have "SaveProgress \<notin> set (take n (performScanEvents rules s feed))" by auto
    then show p: "progressFile (crashAfter n rules s feed) = progressFile s"
      by (simp add: crashAfter_def progressFile_kept)
    then show "newMessages (loadLastProcessedId (crashAfter n rules s feed)) feed
              = newMessages (loadLastProcessedId s) feed"
      by (rule newMessages_restart)
  }
  {
    assume h: "newMessages s feed \<noteq> [] \<and> \<not> aborted (performScanEvents rules s feed)"
    then have e: "performScanEvents rules s feed = loopEvents rules s (newMessages s feed)"
      by (simp add: performScanEvents_def)
    with h have na: "\<not> aborted (loopEvents rules s (newMessages s feed))" by simp
    from loopEvents_last[OF na] show "last (performScanEvents rules s feed) = SaveProgress"
      by (simp add: e)
    from loopEvents_memory[OF na] h
    show "lastProcessedId (performScan rules s feed) = msg_id (last (newMessages s feed))"
      by (simp add: e performScan_def)
    show "progressFile (performScan rules s feed)
              = (if progressWritable s then Some (msg_id (last (newMessages s feed)))
                 else progressFile s)"
    proof (cases "progressWritable s")
      case True
      from loopEvents_complete[OF na True] h True show ?thesis
        by (simp add: e performScan_def)
    next
      case False
      then show ?thesis by (simp add: performScan_def progressFile_unwritable)
    qed
  }
qed

theorem progress_saved_after_scan_witness:
  "(4::nat) < length (performScanEvents exampleRules freshScanner twoEntryFeed)
   \<and> progressFile (crashAfter 4 exampleRules freshScanner twoEntryFeed) = progressFile freshScanner
   \<and> newMessages (loadLastProcessedId (crashAfter 4 exampleRules freshScanner twoEntryFeed)) twoEntryFeed
       = newMessages (loadLastProcessedId freshScanner) twoEntryFeed
   \<and> newMessages freshScanner twoEntryFeed \<noteq> []
   \<and> \<not> aborted (performScanEvents exampleRules freshScanner twoEntryFeed)
   \<and> last (performScanEvents exampleRules freshScanner twoEntryFeed) = SaveProgress
   \<and> lastProcessedId (performScan exampleRules freshScanner twoEntryFeed) = 2
   \<and> progressWritable freshScanner
   \<and> progressFile (performScan exampleRules freshScanner twoEntryFeed) = Some 2
   \<and> newMessages (freshScanner\<lparr>progressWritable := False\<rparr>) twoEntryFeed \<noteq> []
   \<and> \<not> aborted (performScanEvents exampleRules (freshScanner\<lparr>progressWritable := False\<rparr>)
              twoEntryFeed)
   \<and> lastProcessedId (performScan exampleRules (freshScanner\<lparr>progressWritable := False\<rparr>)
         twoEntryFeed) = 2
   \<and> progressFile (performScan exampleRules (freshScanner\<lparr>progressWritable := False\<rparr>)
         twoEntryFeed) = Some 0"
proof -
  let ?u = "freshScanner\<lparr>progressWritable := False\<rparr>"
  have h1: "(4::nat) < length (performScanEvents exampleRules freshScanner twoEntryFeed)"
    by code_simp
  have h2: "newMessages freshScanner twoEntryFeed \<noteq> []
            \<and> \<not> aborted (performScanEvents exampleRules freshScanner twoEntryFeed)"
    by code_simp
  have v: "msg_id (last (newMessages freshScanner twoEntryFeed)) = 2" by code_simp
  have w: "progressWritable freshScanner" by code_simp
  have h3: "newMessages ?u twoEntryFeed \<noteq> []
            \<and> \<not> aborted (performScanEvents exampleRules ?u twoEntryFeed)"
    by code_simp
  have v3: "msg_id (last (newMessages ?u twoEntryFeed)) = 2" by code_simp
  have w3: "\<not> progressWritable ?u" by simp
  have f3: "progressFile ?u = Some 0" by (simp add: freshScanner_def)
  show ?thesis
    using h1 h2 v w h3 v3 w3 f3
      progress_saved_after_scan[of exampleRules freshScanner twoEntryFeed 4]
      progress_saved_after_scan[of exampleRules ?u twoEntryFeed 4]
    by simp
qed

end
